theory Spec2Isabelle
  imports Main "HOL-Library.Word" "HOL-Library.Monad_Syntax"
begin

unbundle bit_operations_syntax

section \<open>file_bundler.h: data model\<close>

text \<open>
  The embedding follows \<^verbatim>\<open>src/file_bundler.h\<close> for a 64-bit little-endian target
  with a signed 8-bit \<^verbatim>\<open>char\<close> and a 32-bit \<^verbatim>\<open>int\<close> (x86-64): \<^verbatim>\<open>CHAR_MAX\<close> is 127,
  \<^verbatim>\<open>INT_MAX\<close> is 2147483647, \<^verbatim>\<open>std::uint64_t\<close> and \<^verbatim>\<open>std::size_t\<close> are 64-bit words.
  A \<^verbatim>\<open>std::string\<close> and a \<^verbatim>\<open>std::vector<std::uint8_t>\<close> are lists of bytes.

  A function of the source that may not return a value returns an option here:
  \<open>None\<close> stands for an execution with no normal return. These are the executions
  with undefined behaviour (a \<^verbatim>\<open>memcpy\<close> outside its region, the signed overflow of
  an \<^verbatim>\<open>int\<close> loop counter), the name-reading loop that never reads its terminator,
  and the two calls that throw: the size query on a path that does not exist and the
  creation of a directory that cannot be made. Allocation is taken to succeed.
\<close>

type_synonym byte = "8 word"
type_synonym u64 = "64 word"
type_synonym cstring = "byte list"

definition CHAR_MAX :: byte where
  "CHAR_MAX = 127"

definition INT_MAX :: nat where
  "INT_MAX = 2147483647"

text \<open>The characters of a string literal as bytes, for writing examples.\<close>

definition str :: "string \<Rightarrow> cstring" where
  "str s = map of_char s"

text \<open>\<^verbatim>\<open>std::string::c_str()\<close> as the operating system reads it: up to the first NUL.\<close>

definition c_str :: "cstring \<Rightarrow> cstring" where
  "c_str s = takeWhile (\<lambda>c. c \<noteq> 0) s"

text \<open>
  The object representation of a \<^verbatim>\<open>std::uint64_t\<close>: eight bytes, least significant
  first.
\<close>

fun le_bytes :: "nat \<Rightarrow> u64 \<Rightarrow> byte list" where
  "le_bytes 0 w = []"
| "le_bytes (Suc k) w = ucast w # le_bytes k (drop_bit 8 w)"

definition u64_bytes :: "u64 \<Rightarrow> byte list" where
  "u64_bytes w = le_bytes 8 w"

fun bytes_u64 :: "byte list \<Rightarrow> u64" where
  "bytes_u64 [] = 0"
| "bytes_u64 (b # bs) = ucast b OR push_bit 8 (bytes_u64 bs)"

text \<open>\<^verbatim>\<open>std::vector::resize\<close>: truncate, or extend with zero bytes.\<close>

definition resize :: "byte list \<Rightarrow> nat \<Rightarrow> byte list" where
  "resize v n = take n v @ replicate (n - length v) 0"

text \<open>
  \<^verbatim>\<open>std::vector::data()\<close>: a vector that never allocated has no storage, and the
  pointer is null.
\<close>

definition vector_data :: "byte list \<Rightarrow> byte list option" where
  "vector_data v = (if v = [] then None else Some v)"

subsection \<open>The file system\<close>

text \<open>
  The file system is an external collaborator. What the code reads from it is a
  parameter, \<open>disk\<close>: the content of each path that can be opened for reading. What
  the code asks of it is returned as a list of calls, in the order they are made.

  Two of the calls have an outcome the code depends on, for reasons \<open>disk\<close> does not
  record (permissions, what kind of entry a component of a path is). Each outcome is
  a parameter of its own, a predicate on the path as it is passed:
  \<open>creatable path\<close> holds when \<^verbatim>\<open>fs::create_directories(path)\<close> returns; when it does
  not hold the call throws, and the exception leaves the de-bundler with no result.
  \<open>appendable path\<close> holds when a stream opened on \<open>path\<close> for appending is open, so
  that the file exists from then on: empty when it did not exist before, as it was
  otherwise (nothing is truncated). The two predicates and \<open>disk\<close> describe one file
  system; nothing here relates them, and what is proved below of all of them holds
  of every file system.
\<close>

type_synonym disk = "cstring \<Rightarrow> byte list option"

datatype disk_effect =
  create_directories cstring
  | append_file cstring "byte list"

definition open_for_append :: "(cstring \<Rightarrow> bool) \<Rightarrow> disk \<Rightarrow> cstring \<Rightarrow> disk" where
  "open_for_append appendable d p_file_name =
     (if appendable p_file_name \<and> d (c_str p_file_name) = None
      then d(c_str p_file_name \<mapsto> [])
      else d)"

datatype openmode = in_binary | out_binary_app

text \<open>
  A \<^verbatim>\<open>std::fstream\<close>: \<open>contents\<close> is what a stream opened for reading can extract
  (\<open>None\<close> when no file is open), \<open>gpos\<close> the get position, \<open>failbit\<close> the error
  state, \<open>put_bytes\<close> the bytes handed to \<^verbatim>\<open>write\<close> so far.
\<close>

record fstream =
  contents :: "byte list option"
  gpos :: nat
  failbit :: bool
  put_bytes :: "byte list"

definition fstream_default :: fstream where
  "fstream_default = \<lparr>contents = None, gpos = 0, failbit = False, put_bytes = []\<rparr>"

definition fstream_open :: "disk \<Rightarrow> cstring \<Rightarrow> openmode \<Rightarrow> fstream" where
  "fstream_open d p_file_name p_openmode =
     (case p_openmode of
        in_binary \<Rightarrow>
          \<lparr>contents = d (c_str p_file_name), gpos = 0,
           failbit = (d (c_str p_file_name) = None), put_bytes = []\<rparr>
      | out_binary_app \<Rightarrow>
          \<lparr>contents = None, gpos = 0, failbit = False, put_bytes = []\<rparr>)"

text \<open>
  \<^verbatim>\<open>istream::read\<close>: a stream that is not good extracts nothing; a read past the end
  stores what is left and sets the error state. The destination keeps the bytes that
  are not overwritten.
\<close>

definition fstream_read :: "fstream \<Rightarrow> byte list \<Rightarrow> nat \<Rightarrow> byte list \<times> fstream" where
  "fstream_read f dst n =
     (case contents f of
        None \<Rightarrow> (dst, f\<lparr>failbit := True\<rparr>)
      | Some c \<Rightarrow>
          if failbit f then (dst, f)
          else
            let chunk = take n (drop (gpos f) c) in
            if length chunk = n then (chunk @ drop n dst, f\<lparr>gpos := gpos f + n\<rparr>)
            else (chunk @ drop (length chunk) dst,
                  f\<lparr>gpos := gpos f + length chunk, failbit := True\<rparr>))"

definition fstream_seekg :: "fstream \<Rightarrow> nat \<Rightarrow> fstream" where
  "fstream_seekg f p =
     (case contents f of
        None \<Rightarrow> f\<lparr>failbit := True\<rparr>
      | Some c \<Rightarrow> if failbit f then f else f\<lparr>gpos := p\<rparr>)"

definition fstream_write :: "fstream \<Rightarrow> byte list \<Rightarrow> fstream" where
  "fstream_write f src = f\<lparr>put_bytes := put_bytes f @ src\<rparr>"

subsection \<open>Base\_Stream, Input\_Stream, Output\_Stream\<close>

datatype STREAM_OBJECT_TYPE = MEMORY | VECTOR | FILE

text \<open>
  \<open>memory\<close> is the region the stream's pointer addresses (\<open>None\<close> for
  \<^verbatim>\<open>nullptr\<close>). For a stream over a vector the pointer is the vector's storage, so the
  region is the vector's content and the model keeps this one copy of it.
\<close>

record Base_Stream =
  stream_object_type :: STREAM_OBJECT_TYPE
  current_offset :: u64
  file_stream :: fstream
  file_name :: cstring
  memory :: "byte list option"
  memory_size :: u64

type_synonym Input_Stream = Base_Stream

record Output_Stream = Base_Stream +
  total_bytes_written :: u64

definition Input_Stream_default :: Input_Stream where
  "Input_Stream_default =
     \<lparr>stream_object_type = MEMORY, current_offset = 0, file_stream = fstream_default,
      file_name = [], memory = None, memory_size = 0\<rparr>"

definition Output_Stream_default :: Output_Stream where
  "Output_Stream_default =
     \<lparr>stream_object_type = MEMORY, current_offset = 0, file_stream = fstream_default,
      file_name = [], memory = None, memory_size = 0, total_bytes_written = 0\<rparr>"

definition get_file_name :: "'a Base_Stream_scheme \<Rightarrow> cstring" where
  "get_file_name s = file_name s"

definition open_memory ::
  "'a Base_Stream_scheme \<Rightarrow> byte list option \<Rightarrow> u64 \<Rightarrow> 'a Base_Stream_scheme" where
  "open_memory s p_address p_size =
     s\<lparr>memory := p_address, memory_size := p_size, stream_object_type := MEMORY\<rparr>"

definition open_vector ::
  "'a Base_Stream_scheme \<Rightarrow> byte list \<Rightarrow> u64 \<Rightarrow> 'a Base_Stream_scheme" where
  "open_vector s p_vector p_size =
     (let v = resize p_vector (unat p_size) in
      s\<lparr>memory := Some v, memory_size := of_nat (length v), stream_object_type := VECTOR\<rparr>)"

definition open_file ::
  "disk \<Rightarrow> 'a Base_Stream_scheme \<Rightarrow> cstring \<Rightarrow> openmode \<Rightarrow> 'a Base_Stream_scheme" where
  "open_file d s p_file_name p_openmode =
     s\<lparr>file_stream := fstream_open d p_file_name p_openmode, file_name := p_file_name,
       stream_object_type := FILE\<rparr>"

text \<open>
  \<^verbatim>\<open>Input_Stream::read\<close>. The result is the destination buffer after the call and the
  stream after the call. On a memory stream the guard compares in 64-bit arithmetic,
  as the source does; the copy is defined when its range lies inside the region (a
  region ends below address \<open>2 ^ 64\<close>).
\<close>

definition Input_Stream_read ::
  "Input_Stream \<Rightarrow> byte list \<Rightarrow> u64 \<Rightarrow> (byte list \<times> Input_Stream) option" where
  "Input_Stream_read s p_address p_size =
     (case memory s of
        Some mem \<Rightarrow>
          if current_offset s + p_size \<ge> memory_size s then Some (p_address, s)
          else if unat (current_offset s) + unat p_size \<le> length mem
                  \<and> unat (current_offset s) + unat p_size < 2 ^ 64
          then Some (take (unat p_size) (drop (unat (current_offset s)) mem)
                       @ drop (unat p_size) p_address,
                     s\<lparr>current_offset := current_offset s + p_size\<rparr>)
          else None
      | None \<Rightarrow>
          (case fstream_read (file_stream s) p_address (unat p_size) of
             (buf, f) \<Rightarrow> Some (buf, s\<lparr>file_stream := f\<rparr>)))"

definition Input_Stream_seekg :: "Input_Stream \<Rightarrow> u64 \<Rightarrow> Input_Stream" where
  "Input_Stream_seekg s p_offset =
     (case memory s of
        Some mem \<Rightarrow> if p_offset \<le> memory_size s then s\<lparr>current_offset := p_offset\<rparr> else s
      | None \<Rightarrow> s\<lparr>file_stream := fstream_seekg (file_stream s) (unat p_offset)\<rparr>)"

text \<open>
  \<^verbatim>\<open>Output_Stream::write\<close> of the first \<open>p_size\<close> bytes at \<open>p_address\<close>; \<open>p_address\<close>
  is the region the pointer addresses, and copying more bytes than it holds is
  undefined. A vector stream grows its vector to \<open>memory_size + p_size\<close> when the
  write would pass the end; a fixed region is written unchecked, which is defined
  only inside the region.
\<close>

definition Output_Stream_write ::
  "Output_Stream \<Rightarrow> byte list \<Rightarrow> u64 \<Rightarrow> Output_Stream option" where
  "Output_Stream_write s p_address p_size =
     (if length p_address < unat p_size then None
      else
        case memory s of
          Some mem \<Rightarrow>
            let v = (if stream_object_type s = VECTOR
                        \<and> current_offset s + p_size > memory_size s
                     then resize mem (unat (memory_size s + p_size)) else mem);
                n = (if stream_object_type s = VECTOR
                        \<and> current_offset s + p_size > memory_size s
                     then of_nat (length v) else memory_size s)
            in
              if unat (current_offset s) + unat p_size \<le> length v
                 \<and> unat (current_offset s) + unat p_size < 2 ^ 64
              then Some (s\<lparr>memory := Some (take (unat (current_offset s)) v
                                            @ take (unat p_size) p_address
                                            @ drop (unat (current_offset s) + unat p_size) v),
                           memory_size := n,
                           current_offset := current_offset s + p_size,
                           total_bytes_written := total_bytes_written s + p_size\<rparr>)
              else None
        | None \<Rightarrow>
            Some (s\<lparr>file_stream := fstream_write (file_stream s) (take (unat p_size) p_address),
                    total_bytes_written := total_bytes_written s + p_size\<rparr>))"

definition get_total_bytes_written :: "Output_Stream \<Rightarrow> u64" where
  "get_total_bytes_written s = total_bytes_written s"

subsection \<open>Header\_Metadata and File\<close>

record Header_Metadata =
  names_section_size :: u64
  sizes_section_size :: u64
  files_section_size :: u64

definition Header_Metadata_default :: Header_Metadata where
  "Header_Metadata_default =
     \<lparr>names_section_size = 0, sizes_section_size = 0, files_section_size = 0\<rparr>"

text \<open>The 24 bytes of the struct, and the struct read back from 24 bytes.\<close>

definition metadata_bytes :: "Header_Metadata \<Rightarrow> byte list" where
  "metadata_bytes m =
     u64_bytes (names_section_size m) @ u64_bytes (sizes_section_size m)
       @ u64_bytes (files_section_size m)"

definition metadata_of_bytes :: "byte list \<Rightarrow> Header_Metadata" where
  "metadata_of_bytes bs =
     \<lparr>names_section_size = bytes_u64 (take 8 bs),
      sizes_section_size = bytes_u64 (take 8 (drop 8 bs)),
      files_section_size = bytes_u64 (take 8 (drop 16 bs))\<rparr>"

text \<open>The class \<^verbatim>\<open>File\<close>; its field \<^verbatim>\<open>size\<close> is \<open>size_f\<close> here.\<close>

record File =
  name :: cstring
  size_f :: u64
  bytes :: "byte list"

definition File_default :: File where
  "File_default = \<lparr>name = [], size_f = 0, bytes = []\<rparr>"

definition set_size :: "File \<Rightarrow> u64 \<Rightarrow> File" where
  "set_size f p_file_size = f\<lparr>size_f := p_file_size\<rparr>"

definition set_name :: "File \<Rightarrow> cstring \<Rightarrow> File" where
  "set_name f p_file_name = f\<lparr>name := p_file_name\<rparr>"

definition set_bytes :: "File \<Rightarrow> byte list \<Rightarrow> File" where
  "set_bytes f p_bytes = f\<lparr>bytes := p_bytes\<rparr>"

text \<open>
  \<^verbatim>\<open>set_bytes(p_address, p_size, p_deallocate)\<close>: \<open>p_address\<close> is the region the
  pointer addresses; copying \<open>p_size\<close> bytes out of a shorter region is undefined.
  The deallocation of the caller's block leaves the record as it is.
\<close>

definition set_bytes_from :: "File \<Rightarrow> byte list \<Rightarrow> u64 \<Rightarrow> File option" where
  "set_bytes_from f p_address p_size =
     (if length p_address < unat p_size then None
      else Some (f\<lparr>size_f := p_size, bytes := take (unat p_size) p_address\<rparr>))"

definition File_from_memory :: "cstring \<Rightarrow> byte list \<Rightarrow> u64 \<Rightarrow> File option" where
  "File_from_memory p_file_name p_address p_size =
     set_bytes_from (File_default\<lparr>name := p_file_name\<rparr>) p_address p_size"

definition File_from_vector :: "cstring \<Rightarrow> byte list \<Rightarrow> File" where
  "File_from_vector p_file_name p_bytes =
     \<lparr>name = p_file_name, size_f = of_nat (length p_bytes), bytes = p_bytes\<rparr>"

definition File_descriptor :: "cstring \<Rightarrow> u64 \<Rightarrow> File" where
  "File_descriptor p_file_name p_size = \<lparr>name = p_file_name, size_f = p_size, bytes = []\<rparr>"

section \<open>The bundler\<close>

text \<open>The first loop of \<^verbatim>\<open>bundle\<close>: the three section sizes, in 64-bit arithmetic.\<close>

definition accumulate_metadata :: "File list \<Rightarrow> Header_Metadata" where
  "accumulate_metadata p_files =
     fold (\<lambda>f m.
            \<lparr>names_section_size = names_section_size m + (of_nat (length (name f)) + 1),
             sizes_section_size = sizes_section_size m + 8,
             files_section_size = files_section_size m + size_f f\<rparr>)
          p_files Header_Metadata_default"

text \<open>The second loop: each name with its terminator, \<^verbatim>\<open>c_str()\<close> and \<^verbatim>\<open>size() + 1\<close>.\<close>

fun write_names :: "Output_Stream \<Rightarrow> File list \<Rightarrow> Output_Stream option" where
  "write_names s [] = Some s"
| "write_names s (f # fs) =
     do {
       s' \<leftarrow> Output_Stream_write s (name f @ [0]) (of_nat (length (name f)) + 1);
       write_names s' fs
     }"

text \<open>The third loop: each declared size.\<close>

fun write_sizes :: "Output_Stream \<Rightarrow> File list \<Rightarrow> Output_Stream option" where
  "write_sizes s [] = Some s"
| "write_sizes s (f # fs) =
     do {
       s' \<leftarrow> Output_Stream_write s (u64_bytes (size_f f)) 8;
       write_sizes s' fs
     }"

text \<open>
  The byte-by-byte copy loop of \<^verbatim>\<open>bundle\<close> and \<^verbatim>\<open>debundle\<close>: \<open>n\<close> rounds, each with a
  fresh \<^verbatim>\<open>char byte = CHAR_MAX\<close>, one read of one byte and one write of one byte.
\<close>

fun copy_bytes ::
  "nat \<Rightarrow> Input_Stream \<Rightarrow> Output_Stream \<Rightarrow> (Input_Stream \<times> Output_Stream) option" where
  "copy_bytes 0 input_stream output_stream = Some (input_stream, output_stream)"
| "copy_bytes (Suc n) input_stream output_stream =
     do {
       (byte, input_stream') \<leftarrow> Input_Stream_read input_stream [CHAR_MAX] 1;
       output_stream' \<leftarrow> Output_Stream_write output_stream byte 1;
       copy_bytes n input_stream' output_stream'
     }"

text \<open>
  The fourth loop: the payloads, from the records' buffers or from the files of their
  names. The counter of the inner loop is an \<^verbatim>\<open>int\<close> compared with a 64-bit size.
\<close>

fun write_payloads ::
  "disk \<Rightarrow> bool \<Rightarrow> Output_Stream \<Rightarrow> File list \<Rightarrow> Output_Stream option" where
  "write_payloads d p_from_memory s [] = Some s"
| "write_payloads d p_from_memory s (f # fs) =
     (if p_from_memory then
        do {
          s' \<leftarrow> Output_Stream_write s (bytes f) (of_nat (length (bytes f)));
          write_payloads d p_from_memory s' fs
        }
      else if INT_MAX < unat (size_f f) then None
      else
        do {
          (input_stream, s') \<leftarrow>
            copy_bytes (unat (size_f f)) (open_file d Input_Stream_default (name f) in_binary) s;
          write_payloads d p_from_memory s' fs
        })"

text \<open>
  The main bundler. The sink is passed by reference: its final state is returned
  beside the artifact descriptor.
\<close>

definition bundle_stream ::
  "disk \<Rightarrow> Output_Stream \<Rightarrow> File list \<Rightarrow> bool \<Rightarrow> (File \<times> Output_Stream) option" where
  "bundle_stream d p_output_stream p_files p_from_memory =
     do {
       s1 \<leftarrow> Output_Stream_write p_output_stream
               (metadata_bytes (accumulate_metadata p_files)) 24;
       s2 \<leftarrow> write_names s1 p_files;
       s3 \<leftarrow> write_sizes s2 p_files;
       s4 \<leftarrow> write_payloads d p_from_memory s3 p_files;
       Some (File_descriptor (get_file_name s4) (get_total_bytes_written s4), s4)
     }"

text \<open>Bundle files from memory to disk.\<close>

definition bundle_memory_to_disk ::
  "disk \<Rightarrow> cstring \<Rightarrow> File list \<Rightarrow> (File \<times> disk_effect list) option" where
  "bundle_memory_to_disk d p_bundle_output_path p_files =
     do {
       (package, s) \<leftarrow>
         bundle_stream d (open_file d Output_Stream_default p_bundle_output_path out_binary_app)
           p_files True;
       Some (package, [append_file p_bundle_output_path (put_bytes (file_stream s))])
     }"

text \<open>
  \<^verbatim>\<open>files.push_back({file_name, fs::file_size(file_name)})\<close>: the size query throws
  for a path that does not exist.
\<close>

fun files_of_names :: "disk \<Rightarrow> cstring list \<Rightarrow> File list option" where
  "files_of_names d [] = Some []"
| "files_of_names d (file_name' # rest) =
     (case d (c_str file_name') of
        None \<Rightarrow> None
      | Some content \<Rightarrow>
          do {
            files \<leftarrow> files_of_names d rest;
            Some (File_descriptor file_name' (of_nat (length content)) # files)
          })"

text \<open>
  Bundle files from disk to disk. The sink is opened before the sizes are queried:
  the queries and the copy loops see the disk as the opening leaves it, \<open>d'\<close>. A
  listed file that is the sink itself is read up to the size it had at the query;
  what the run appends comes after that.
\<close>

definition bundle_disk_to_disk ::
  "(cstring \<Rightarrow> bool) \<Rightarrow> disk \<Rightarrow> cstring \<Rightarrow> cstring list \<Rightarrow>
     (File \<times> disk_effect list) option" where
  "bundle_disk_to_disk appendable d p_bundle_output_path p_file_names =
     (let d' = open_for_append appendable d p_bundle_output_path in
      do {
        files \<leftarrow> files_of_names d' p_file_names;
        (package, s) \<leftarrow>
          bundle_stream d'
            (open_file d' Output_Stream_default p_bundle_output_path out_binary_app)
            files False;
        Some (package, [append_file p_bundle_output_path (put_bytes (file_stream s))])
      })"

text \<open>
  Bundle files from memory to memory: the sink is a vector stream over an empty
  buffer, and the buffer is moved into the package.
\<close>

definition memory_contents :: "'a Base_Stream_scheme \<Rightarrow> byte list" where
  "memory_contents s = (case memory s of None \<Rightarrow> [] | Some mem \<Rightarrow> mem)"

definition bundle_memory_to_memory :: "disk \<Rightarrow> File list \<Rightarrow> File option" where
  "bundle_memory_to_memory d p_files =
     do {
       (package, s) \<leftarrow> bundle_stream d (open_vector Output_Stream_default [] 0) p_files True;
       Some (package\<lparr>bytes := memory_contents s\<rparr>)
     }"

text \<open>Bundle files from disk to memory.\<close>

definition bundle_disk_to_memory :: "disk \<Rightarrow> cstring list \<Rightarrow> File option" where
  "bundle_disk_to_memory d p_file_names =
     do {
       files \<leftarrow> files_of_names d p_file_names;
       (package, s) \<leftarrow> bundle_stream d (open_vector Output_Stream_default [] 0) files False;
       Some (package\<lparr>bytes := memory_contents s\<rparr>)
     }"

section \<open>The de-bundler\<close>

text \<open>
  The name-reading loop \<^verbatim>\<open>while (current_char != '\0')\<close>: one read of one byte, and the
  byte is appended to the name, the terminator too. A read that leaves the stream as
  it was has transferred nothing, so \<open>current_char\<close> is what it was and the loop does
  not end (the string grows until it cannot): the result is \<open>None\<close>. Every other read
  uses up \<open>bytes_left\<close>, the measure of the termination proof. The local variable
  \<^verbatim>\<open>file_name\<close> of the source is \<open>file_name'\<close> here and below, \<open>file_name\<close> being the
  member of the stream.
\<close>

definition bytes_left :: "Input_Stream \<Rightarrow> nat" where
  "bytes_left s =
     (case memory s of
        Some mem \<Rightarrow> unat (memory_size s) - unat (current_offset s)
      | None \<Rightarrow>
          (case contents (file_stream s) of
             None \<Rightarrow> 0
           | Some c \<Rightarrow> length c - gpos (file_stream s))
          + (if failbit (file_stream s) then 0 else 1))"

function read_name ::
  "Input_Stream \<Rightarrow> cstring \<Rightarrow> byte \<Rightarrow> (cstring \<times> Input_Stream) option" where
  "read_name s file_name' current_char =
     (if current_char \<noteq> 0 then
        (case Input_Stream_read s [current_char] 1 of
           None \<Rightarrow> None
         | Some (buf, s') \<Rightarrow>
             (case buf of
                [] \<Rightarrow> None
              | c # _ \<Rightarrow> if s' = s then None else read_name s' (file_name' @ [c]) c))
      else Some (file_name', s))"
  by pat_completeness auto
termination
proof (relation "measure (\<lambda>(s, file_name', current_char). bytes_left s)")
  show "wf (measure (\<lambda>(s, file_name', current_char). bytes_left s))"
    by simp
next
  fix s :: Input_Stream and file_name' :: cstring and current_char :: byte
    and x2 :: "byte list \<times> Input_Stream" and buf s' c rest
  assume r: "Input_Stream_read s [current_char] 1 = Some x2" "(buf, s') = x2" "s' \<noteq> s"
  show "((s', file_name' @ [c], c), s, file_name', current_char)
          \<in> measure (\<lambda>(s, file_name', current_char). bytes_left s)"
  proof (cases "memory s")
    case (Some mem)
    from r Some have g: "\<not> memory_size s \<le> current_offset s + 1"
      and b: "unat (current_offset s) + 1 < 2 ^ 64"
      and s': "s' = s\<lparr>current_offset := current_offset s + 1\<rparr>"
      by (auto simp: Input_Stream_read_def split: if_splits)
    from b have u: "unat (current_offset s + 1) = unat (current_offset s) + 1"
      by (simp add: unat_word_ariths)
    from g have "unat (current_offset s + 1) < unat (memory_size s)"
      by (simp add: word_less_nat_alt not_le)
    with u Some s' show ?thesis
      by (simp add: bytes_left_def)
  next
    case None
    with r show ?thesis
      by (auto simp: Input_Stream_read_def fstream_read_def bytes_left_def Let_def
               split: option.splits if_splits)
  qed
qed

text \<open>The loop over \<open>i\<close> that grabs the names: each starts from an empty string.\<close>

fun read_names :: "nat \<Rightarrow> Input_Stream \<Rightarrow> (cstring list \<times> Input_Stream) option" where
  "read_names 0 s = Some ([], s)"
| "read_names (Suc n) s =
     do {
       (file_name', s') \<leftarrow> read_name s [] CHAR_MAX;
       (names, s'') \<leftarrow> read_names n s';
       Some (file_name' # names, s'')
     }"

text \<open>The loop that grabs the sizes: each read is into a \<^verbatim>\<open>file_size = 0\<close>.\<close>

fun read_sizes :: "nat \<Rightarrow> Input_Stream \<Rightarrow> (u64 list \<times> Input_Stream) option" where
  "read_sizes 0 s = Some ([], s)"
| "read_sizes (Suc n) s =
     do {
       (buf, s') \<leftarrow> Input_Stream_read s (u64_bytes 0) 8;
       (sizes, s'') \<leftarrow> read_sizes n s';
       Some (bytes_u64 buf # sizes, s'')
     }"

text \<open>
  The search \<^verbatim>\<open>for (int i = name.size() - 1; i > 0; i--)\<close> for the last separator,
  \<^verbatim>\<open>'/'\<close> (47) or \<^verbatim>\<open>'\\'\<close> (92), and the substring before it. The start index is
  the 64-bit \<^verbatim>\<open>size() - 1\<close> converted to \<^verbatim>\<open>int\<close>: its low 32 bits, a negative number
  from \<open>2 ^ 31\<close> on.
\<close>

fun last_separator :: "cstring \<Rightarrow> nat \<Rightarrow> nat option" where
  "last_separator file_name' 0 = None"
| "last_separator file_name' (Suc i) =
     (if file_name' ! Suc i = 47 \<or> file_name' ! Suc i = 92 then Some (Suc i)
      else last_separator file_name' i)"

definition original_path_of :: "cstring \<Rightarrow> cstring" where
  "original_path_of file_name' =
     (let i = (of_nat (length file_name') - 1 :: 32 word) in
      if i = 0 \<or> 2147483648 \<le> i then []
      else
        case last_separator file_name' (unat i) of
          None \<Rightarrow> []
        | Some j \<Rightarrow> take j file_name')"

text \<open>
  The directory loop. Its first statement is \<^verbatim>\<open>if (!p_to_memory) break;\<close>, so it
  does its work when the target is memory and nothing when the target is the disk.
  \<^verbatim>\<open>fs::create_directories(output_path)\<close> throws when the directory cannot be made:
  the loop, and the de-bundler with it, then has no result.
\<close>

fun directory_tree_effects ::
  "(cstring \<Rightarrow> bool) \<Rightarrow> bool \<Rightarrow> cstring \<Rightarrow> cstring list \<Rightarrow> disk_effect list option" where
  "directory_tree_effects creatable p_to_memory p_output_directory [] = Some []"
| "directory_tree_effects creatable p_to_memory p_output_directory (file_name' # rest) =
     (if \<not> p_to_memory then Some []
      else if original_path_of file_name' = []
      then directory_tree_effects creatable p_to_memory p_output_directory rest
      else if \<not> creatable (p_output_directory @ [47] @ original_path_of file_name') then None
      else
        do {
          effects \<leftarrow> directory_tree_effects creatable p_to_memory p_output_directory rest;
          Some (create_directories (p_output_directory @ [47] @ original_path_of file_name')
                # effects)
        })"

text \<open>
  The extraction loop. To memory, the sink is the fixed region of the record's
  buffer, resized to the declared size; to disk, a file stream opened for appending
  on the bundled name as it is. The record gets the region's final content.
\<close>

fun extract_files ::
  "disk \<Rightarrow> bool \<Rightarrow> Input_Stream \<Rightarrow> (cstring \<times> u64) list \<Rightarrow>
     (File list \<times> disk_effect list) option" where
  "extract_files d p_to_memory s [] = Some ([], [])"
| "extract_files d p_to_memory s ((file_name', file_size) # rest) =
     (if INT_MAX < unat file_size then None
      else
        do {
          (s', output_stream) \<leftarrow>
            copy_bytes (unat file_size) s
              (if p_to_memory
               then open_memory Output_Stream_default
                      (vector_data (resize [] (unat file_size))) file_size
               else open_file d Output_Stream_default file_name' out_binary_app);
          (files, effects) \<leftarrow> extract_files d p_to_memory s' rest;
          Some (\<lparr>name = file_name', size_f = file_size,
                  bytes = (if p_to_memory then memory_contents output_stream else [])\<rparr> # files,
                (if p_to_memory then []
                 else [append_file file_name' (put_bytes (file_stream output_stream))])
                @ effects)
        })"

text \<open>
  The main de-bundler. The counters of the two header loops are \<^verbatim>\<open>int\<close>s compared
  with the 64-bit number of files. The directory loop runs after the sizes are read
  and before the extraction.
\<close>

definition debundle_stream ::
  "(cstring \<Rightarrow> bool) \<Rightarrow> disk \<Rightarrow> Input_Stream \<Rightarrow> cstring \<Rightarrow> bool \<Rightarrow>
     (File list \<times> disk_effect list) option" where
  "debundle_stream creatable d p_input_stream p_output_directory p_to_memory =
     do {
       (buf, s1) \<leftarrow> Input_Stream_read p_input_stream (metadata_bytes Header_Metadata_default) 24;
       let metadata = metadata_of_bytes buf;
       let number_of_bundled_files = sizes_section_size metadata div 8;
       let s2 = Input_Stream_seekg s1 24;
       if INT_MAX < unat number_of_bundled_files then None
       else
         do {
           (names_of_bundled_files, s3) \<leftarrow> read_names (unat number_of_bundled_files) s2;
           (sizes_of_bundled_files, s4) \<leftarrow> read_sizes (unat number_of_bundled_files) s3;
           directories \<leftarrow>
             directory_tree_effects creatable p_to_memory p_output_directory
               names_of_bundled_files;
           (debundled_files, effects) \<leftarrow>
             extract_files d p_to_memory s4 (zip names_of_bundled_files sizes_of_bundled_files);
           Some (debundled_files, directories @ effects)
         }
     }"

text \<open>Debundle files from memory to disk.\<close>

definition debundle_memory_to_disk ::
  "(cstring \<Rightarrow> bool) \<Rightarrow> disk \<Rightarrow> byte list option \<Rightarrow> u64 \<Rightarrow> cstring \<Rightarrow>
     (File list \<times> disk_effect list) option" where
  "debundle_memory_to_disk creatable d p_bundle_address p_bundle_size p_output_directory =
     debundle_stream creatable d
       (open_memory Input_Stream_default p_bundle_address p_bundle_size)
       p_output_directory False"

text \<open>Debundle files from disk to disk.\<close>

definition debundle_disk_to_disk ::
  "(cstring \<Rightarrow> bool) \<Rightarrow> disk \<Rightarrow> cstring \<Rightarrow> cstring \<Rightarrow>
     (File list \<times> disk_effect list) option" where
  "debundle_disk_to_disk creatable d p_bundle_path p_output_directory =
     debundle_stream creatable d (open_file d Input_Stream_default p_bundle_path in_binary)
       p_output_directory False"

text \<open>Debundle files from memory to memory.\<close>

definition debundle_memory_to_memory ::
  "(cstring \<Rightarrow> bool) \<Rightarrow> disk \<Rightarrow> byte list option \<Rightarrow> u64 \<Rightarrow>
     (File list \<times> disk_effect list) option" where
  "debundle_memory_to_memory creatable d p_bundle_address p_bundle_size =
     debundle_stream creatable d
       (open_memory Input_Stream_default p_bundle_address p_bundle_size) [] True"

text \<open>Debundle files from disk to memory.\<close>

definition debundle_disk_to_memory ::
  "(cstring \<Rightarrow> bool) \<Rightarrow> disk \<Rightarrow> cstring \<Rightarrow> (File list \<times> disk_effect list) option" where
  "debundle_disk_to_memory creatable d p_bundle_path =
     debundle_stream creatable d (open_file d Input_Stream_default p_bundle_path in_binary)
       [] True"

text \<open>
  Debundle a package to memory, \<^verbatim>\<open>debundle(File&)\<close>. \<open>buffer_size\<close> is the
  \<^verbatim>\<open>size()\<close> of a vector, a number below \<open>2 ^ 64\<close> that no arithmetic is done on.
  The buffer of the first branch is not empty, so its \<^verbatim>\<open>data()\<close> is not null.
\<close>

definition debundle_package ::
  "(cstring \<Rightarrow> bool) \<Rightarrow> disk \<Rightarrow> File \<Rightarrow> (File list \<times> disk_effect list) option" where
  "debundle_package creatable d p_package =
     (let buffer_size = length (bytes p_package);
          file_name' = name p_package
      in
        if buffer_size > 0
        then debundle_memory_to_memory creatable d (vector_data (bytes p_package))
               (of_nat buffer_size)
        else if file_name' \<noteq> [] then debundle_disk_to_memory creatable d file_name'
        else Some ([], []))"

text \<open>Debundle a package to disk, \<^verbatim>\<open>debundle(File&, output_directory)\<close>.\<close>

definition debundle_package_to_disk ::
  "(cstring \<Rightarrow> bool) \<Rightarrow> disk \<Rightarrow> File \<Rightarrow> cstring \<Rightarrow>
     (File list \<times> disk_effect list) option" where
  "debundle_package_to_disk creatable d p_package p_output_directory =
     (let buffer_size = length (bytes p_package);
          file_name' = name p_package
      in
        if buffer_size > 0
        then debundle_memory_to_disk creatable d (vector_data (bytes p_package))
               (of_nat buffer_size) p_output_directory
        else if file_name' \<noteq> [] then debundle_disk_to_disk creatable d file_name'
               p_output_directory
        else Some ([], []))"

section \<open>Sequences of operations on a File record\<close>

text \<open>
  The public constructors of \<^verbatim>\<open>File\<close> and its public mutators, as values, so that a
  statement can range over every sequence of them.
\<close>

datatype File_constructor =
  New_from_memory cstring "byte list" u64
  | New_from_vector cstring "byte list"
  | New_descriptor cstring u64
  | New_default

datatype File_operation =
  Set_bytes_from "byte list" u64
  | Set_name cstring
  | Set_size u64
  | Set_bytes "byte list"

fun construct :: "File_constructor \<Rightarrow> File option" where
  "construct (New_from_memory p_file_name p_address p_size) =
     File_from_memory p_file_name p_address p_size"
| "construct (New_from_vector p_file_name p_bytes) = Some (File_from_vector p_file_name p_bytes)"
| "construct (New_descriptor p_file_name p_size) = Some (File_descriptor p_file_name p_size)"
| "construct New_default = Some File_default"

fun apply_operation :: "File \<Rightarrow> File_operation \<Rightarrow> File option" where
  "apply_operation f (Set_bytes_from p_address p_size) = set_bytes_from f p_address p_size"
| "apply_operation f (Set_name p_file_name) = Some (set_name f p_file_name)"
| "apply_operation f (Set_size p_file_size) = Some (set_size f p_file_size)"
| "apply_operation f (Set_bytes p_bytes) = Some (set_bytes f p_bytes)"

fun apply_operations :: "File \<Rightarrow> File_operation list \<Rightarrow> File option" where
  "apply_operations f [] = Some f"
| "apply_operations f (operation # rest) =
     do {
       f' \<leftarrow> apply_operation f operation;
       apply_operations f' rest
     }"

text \<open>A constructor call followed by a sequence of operations.\<close>

definition run_operations :: "File_constructor \<Rightarrow> File_operation list \<Rightarrow> File option" where
  "run_operations c operations =
     do {
       f \<leftarrow> construct c;
       apply_operations f operations
     }"

text \<open>The operations that write the size and the buffer together, or neither.\<close>

fun keeps_size_and_bytes_together :: "File_operation \<Rightarrow> bool" where
  "keeps_size_and_bytes_together (Set_bytes_from p_address p_size) = True"
| "keeps_size_and_bytes_together (Set_name p_file_name) = True"
| "keeps_size_and_bytes_together (Set_size p_file_size) = False"
| "keeps_size_and_bytes_together (Set_bytes p_bytes) = False"

text \<open>
  The invariant of the data model: a payload that is present has the declared size.
  The comparison is the one of the two 64-bit values \<^verbatim>\<open>bytes.size()\<close> and \<^verbatim>\<open>size\<close>.
\<close>

definition payload_has_declared_size :: "File \<Rightarrow> bool" where
  "payload_has_declared_size f = (bytes f = [] \<or> of_nat (length (bytes f)) = size_f f)"

section \<open>The layout of a bundle, and streams in a known state\<close>

text \<open>
  The three sections as section 3 of the specification lays them out: each name
  followed by one zero byte, each declared size as eight bytes, each payload; and the
  bundle, the 24 bytes of the header followed by the three sections.
\<close>

definition names_section :: "File list \<Rightarrow> byte list" where
  "names_section fs = concat (map (\<lambda>f. name f @ [0]) fs)"

definition sizes_section :: "File list \<Rightarrow> byte list" where
  "sizes_section fs = concat (map (\<lambda>f. u64_bytes (size_f f)) fs)"

definition files_section :: "File list \<Rightarrow> byte list" where
  "files_section fs = concat (map bytes fs)"

definition bundle_layout :: "File list \<Rightarrow> byte list" where
  "bundle_layout fs =
     metadata_bytes (accumulate_metadata fs) @ names_section fs @ sizes_section fs
       @ files_section fs"

text \<open>
  A sink that has received the bytes \<open>out\<close> and nothing else: the vector stream over
  a buffer that was empty (\<open>target = None\<close>), or the file stream opened for appending
  on \<open>path\<close> (\<open>target = Some path\<close>).
\<close>

definition growing_sink :: "cstring option \<Rightarrow> byte list \<Rightarrow> Output_Stream" where
  "growing_sink target out =
     (case target of
        None \<Rightarrow>
          \<lparr>stream_object_type = VECTOR, current_offset = of_nat (length out),
           file_stream = fstream_default, file_name = [], memory = Some out,
           memory_size = of_nat (length out), total_bytes_written = of_nat (length out)\<rparr>
      | Some path \<Rightarrow>
          \<lparr>stream_object_type = FILE, current_offset = 0,
           file_stream = \<lparr>contents = None, gpos = 0, failbit = False, put_bytes = out\<rparr>,
           file_name = path, memory = None,
           memory_size = 0, total_bytes_written = of_nat (length out)\<rparr>)"

text \<open>The source over the whole of \<open>mem\<close>, at offset \<open>k\<close>.\<close>

definition memory_source :: "byte list \<Rightarrow> nat \<Rightarrow> Input_Stream" where
  "memory_source mem k =
     \<lparr>stream_object_type = MEMORY, current_offset = of_nat k, file_stream = fstream_default,
      file_name = [], memory = Some mem, memory_size = of_nat (length mem)\<rparr>"

text \<open>The source over the file \<open>path\<close> holding \<open>c\<close>, open and good, at get position \<open>g\<close>.\<close>

definition file_source :: "cstring \<Rightarrow> byte list \<Rightarrow> nat \<Rightarrow> Input_Stream" where
  "file_source path c g =
     \<lparr>stream_object_type = FILE, current_offset = 0,
      file_stream = \<lparr>contents = Some c, gpos = g, failbit = False, put_bytes = []\<rparr>,
      file_name = path, memory = None, memory_size = 0\<rparr>"

text \<open>The sink over the fixed region \<open>region\<close>, after \<open>j\<close> bytes written.\<close>

definition fixed_sink :: "byte list \<Rightarrow> nat \<Rightarrow> Output_Stream" where
  "fixed_sink region j =
     \<lparr>stream_object_type = MEMORY, current_offset = of_nat j, file_stream = fstream_default,
      file_name = [], memory = Some region, memory_size = of_nat (length region),
      total_bytes_written = of_nat j\<rparr>"

text \<open>
  What debundling a well-formed bundle from memory returns, file by file: the name
  with its terminator, the declared size, and the payload, where the last byte of the
  bundle is not read and the byte written in its place is \<open>CHAR_MAX\<close>.
\<close>

fun debundled_from_memory :: "File list \<Rightarrow> File list" where
  "debundled_from_memory [] = []"
| "debundled_from_memory (f # fs) =
     \<lparr>name = name f @ [0], size_f = size_f f,
      bytes = (if bytes f \<noteq> [] \<and> files_section fs = []
               then butlast (bytes f) @ [CHAR_MAX] else bytes f)\<rparr>
     # debundled_from_memory fs"

text \<open>
  What debundling a well-formed bundle from a file returns, file by file: the name
  with its terminator, the declared size, and the payload.
\<close>

definition debundled_from_file :: "File list \<Rightarrow> File list" where
  "debundled_from_file fs =
     map (\<lambda>f. \<lparr>name = name f @ [0], size_f = size_f f, bytes = bytes f\<rparr>) fs"

text \<open>
  The directories the directory loop asks for, in a run to memory, given the names
  as they were read: the parent of each name that has one, under the output
  directory.
\<close>

definition requested_directories :: "cstring \<Rightarrow> cstring list \<Rightarrow> cstring list" where
  "requested_directories p_output_directory names_of_bundled_files =
     map (\<lambda>file_name'. p_output_directory @ [47] @ original_path_of file_name')
       (filter (\<lambda>file_name'. original_path_of file_name' \<noteq> []) names_of_bundled_files)"

text \<open>
  In-memory files made from names and payloads by the constructor
  \<^verbatim>\<open>File(std::string, std::vector<std::uint8_t>)\<close>.
\<close>

definition in_memory_files :: "(cstring \<times> byte list) list \<Rightarrow> File list" where
  "in_memory_files entries = map (\<lambda>(n, p). File_from_vector n p) entries"

text \<open>
  The records the path-list entry points make, \<^verbatim>\<open>{file_name, fs::file_size(file_name)}\<close>,
  for a list of names and the contents the files of those names hold.
\<close>

definition listed_files :: "(cstring \<times> byte list) list \<Rightarrow> File list" where
  "listed_files entries = map (\<lambda>(n, c). File_descriptor n (of_nat (length c))) entries"

text \<open>
  The round trip through memory as the specification states it: the bundle of the
  list is produced, debundling it to memory returns, and the files returned are the
  files of the list (same names, sizes and payloads, in the same order).
\<close>

definition round_trip :: "(cstring \<Rightarrow> bool) \<Rightarrow> disk \<Rightarrow> File list \<Rightarrow> bool" where
  "round_trip creatable d fs =
     (case bundle_memory_to_memory d fs of
        None \<Rightarrow> False
      | Some package \<Rightarrow>
          (case debundle_memory_to_memory creatable d (Some (bytes package))
                  (of_nat (length (bytes package))) of
             None \<Rightarrow> False
           | Some (files, effects) \<Rightarrow> files = fs))"

section \<open>Evaluation\<close>

lemma u64_bytes_unfold:
  "u64_bytes w =
     [ucast w, ucast (drop_bit 8 w), ucast (drop_bit 16 w), ucast (drop_bit 24 w),
      ucast (drop_bit 32 w), ucast (drop_bit 40 w), ucast (drop_bit 48 w),
      ucast (drop_bit 56 w)]"
  by (simp add: u64_bytes_def eval_nat_numeral drop_bit_drop_bit)

lemma copy_bytes_numeral:
  "copy_bytes (numeral k) input_stream output_stream =
     do {
       (byte, input_stream') \<leftarrow> Input_Stream_read input_stream [CHAR_MAX] 1;
       output_stream' \<leftarrow> Output_Stream_write output_stream byte 1;
       copy_bytes (pred_numeral k) input_stream' output_stream'
     }"
  by (simp add: numeral_eq_Suc)

lemma read_names_numeral:
  "read_names (numeral k) s =
     do {
       (file_name', s') \<leftarrow> read_name s [] CHAR_MAX;
       (names, s'') \<leftarrow> read_names (pred_numeral k) s';
       Some (file_name' # names, s'')
     }"
  by (simp add: numeral_eq_Suc)

lemma read_sizes_numeral:
  "read_sizes (numeral k) s =
     do {
       (buf, s') \<leftarrow> Input_Stream_read s (u64_bytes 0) 8;
       (sizes, s'') \<leftarrow> read_sizes (pred_numeral k) s';
       Some (bytes_u64 buf # sizes, s'')
     }"
  by (simp add: numeral_eq_Suc)

lemma last_separator_numeral:
  "last_separator file_name' (numeral k) =
     (if file_name' ! numeral k = 47 \<or> file_name' ! numeral k = 92 then Some (numeral k)
      else last_separator file_name' (pred_numeral k))"
  by (simp add: numeral_eq_Suc)

lemmas bundle_eval =
  bundle_memory_to_memory_def bundle_memory_to_disk_def bundle_stream_def
  accumulate_metadata_def Header_Metadata_default_def metadata_bytes_def u64_bytes_unfold
  Output_Stream_write_def open_vector_def open_file_def Output_Stream_default_def
  fstream_default_def fstream_open_def fstream_write_def resize_def File_from_vector_def
  File_descriptor_def get_file_name_def get_total_bytes_written_def memory_contents_def
  str_def Let_def

lemmas bundle_disk_eval =
  bundle_disk_to_disk_def bundle_disk_to_memory_def open_for_append_def c_str_def
  INT_MAX_def CHAR_MAX_def Input_Stream_default_def Input_Stream_read_def fstream_read_def
  copy_bytes_numeral

lemmas debundle_eval =
  debundle_package_def debundle_package_to_disk_def debundle_memory_to_memory_def
  debundle_memory_to_disk_def debundle_stream_def open_memory_def Input_Stream_default_def
  Input_Stream_read_def Input_Stream_seekg_def metadata_of_bytes_def INT_MAX_def CHAR_MAX_def
  vector_data_def original_path_of_def c_str_def
  copy_bytes_numeral read_names_numeral read_sizes_numeral last_separator_numeral
  read_name.simps Let_def debundle_disk_to_disk_def debundle_disk_to_memory_def
  fstream_read_def fstream_seekg_def

section \<open>Lemmas about the streams and the loops\<close>

lemma growing_sink_vector: "open_vector Output_Stream_default [] 0 = growing_sink None []"
  by (simp add: open_vector_def Output_Stream_default_def growing_sink_def resize_def)

lemma growing_sink_file:
  "open_file d Output_Stream_default path out_binary_app = growing_sink (Some path) []"
  by (simp add: open_file_def Output_Stream_default_def growing_sink_def fstream_open_def fstream_default_def)

lemma unat_of_nat64: "n < 2 ^ 64 \<Longrightarrow> unat (of_nat n :: u64) = n"
  by (simp add: unat_of_nat)

lemma write_growing_sink:
  assumes "length out + length src < 2 ^ 64"
  shows "Output_Stream_write (growing_sink target out) src (of_nat (length src))
         = Some (growing_sink target (out @ src))"
proof -
  have a: "unat (of_nat (length src) :: u64) = length src" 
   and b: "unat (of_nat (length out) :: u64) = length out"
   and c: "unat (of_nat (length out) + of_nat (length src) :: u64) = length out + length src"
    using assms by (simp_all add: unat_of_nat64 flip: of_nat_add)
  show ?thesis
  proof (cases target)
    case None
    show ?thesis
      using assms a b c
      by (auto simp add: Output_Stream_write_def growing_sink_def None resize_def Let_def word_less_nat_alt)
  next
    case (Some path)
    then show ?thesis using a 
      by (simp add: Output_Stream_write_def growing_sink_def fstream_write_def)
  qed
qed

lemma write_names_growing_sink:
  "length out + length (names_section fs) < 2 ^ 64 \<Longrightarrow>
   write_names (growing_sink target out) fs = Some (growing_sink target (out @ names_section fs))"
proof (induction fs arbitrary: out)
  case Nil
  then show ?case by (simp add: names_section_def)
next
  case (Cons f fs)
  have n: "names_section (f # fs) = (name f @ [0]) @ names_section fs"
    by (simp add: names_section_def)
  from Cons.prems have l: "length out + length (name f @ [0]) < 2 ^ 64"
    and l': "length (out @ name f @ [0]) + length (names_section fs) < 2 ^ 64"
    by (simp_all add: n)
  have "Output_Stream_write (growing_sink target out) (name f @ [0]) (of_nat (length (name f)) + 1)
        = Some (growing_sink target (out @ name f @ [0]))"
    using write_growing_sink [OF l, of target] by (simp add: add.commute)
  with Cons.IH [OF l'] show ?case
    by (simp add: n)
qed

lemma length_le_bytes: "length (le_bytes k w) = k"
  by (induction k arbitrary: w) auto

lemma length_u64_bytes: "length (u64_bytes w) = 8"
  by (simp add: u64_bytes_def length_le_bytes)

lemma write_sizes_growing_sink:
  "length out + length (sizes_section fs) < 2 ^ 64 \<Longrightarrow>
   write_sizes (growing_sink target out) fs = Some (growing_sink target (out @ sizes_section fs))"
proof (induction fs arbitrary: out)
  case Nil
  then show ?case by (simp add: sizes_section_def)
next
  case (Cons f fs)
  have n: "sizes_section (f # fs) = u64_bytes (size_f f) @ sizes_section fs"
    by (simp add: sizes_section_def)
  from Cons.prems have l: "length out + length (u64_bytes (size_f f)) < 2 ^ 64"
    and l': "length (out @ u64_bytes (size_f f)) + length (sizes_section fs) < 2 ^ 64"
    by (simp_all add: n)
  have "Output_Stream_write (growing_sink target out) (u64_bytes (size_f f)) 8
        = Some (growing_sink target (out @ u64_bytes (size_f f)))"
    using write_growing_sink [OF l, of target] by (simp add: length_u64_bytes)
  with Cons.IH [OF l'] show ?case
    by (simp add: n)
qed

lemma write_payloads_growing_sink:
  "length out + length (files_section fs) < 2 ^ 64 \<Longrightarrow>
   write_payloads d True (growing_sink target out) fs
     = Some (growing_sink target (out @ files_section fs))"
proof (induction fs arbitrary: out)
  case Nil
  then show ?case by (simp add: files_section_def)
next
  case (Cons f fs)
  have n: "files_section (f # fs) = bytes f @ files_section fs"
    by (simp add: files_section_def)
  from Cons.prems have l: "length out + length (bytes f) < 2 ^ 64"
    and l': "length (out @ bytes f) + length (files_section fs) < 2 ^ 64"
    by (simp_all add: n)
  from Cons.IH [OF l'] write_growing_sink [OF l, of target] show ?case
    by (simp add: n)
qed

lemma length_metadata_bytes: "length (metadata_bytes m) = 24"
  by (simp add: metadata_bytes_def length_u64_bytes)

lemma growing_sink_descriptor:
  "get_file_name (growing_sink target out) = (case target of None \<Rightarrow> [] | Some path \<Rightarrow> path)"
  "get_total_bytes_written (growing_sink target out) = of_nat (length out)"
  by (simp_all add: growing_sink_def get_file_name_def get_total_bytes_written_def
        split: option.splits)

lemma bundle_stream_growing_sink:
  assumes "length (bundle_layout fs) < 2 ^ 64"
  shows "bundle_stream d (growing_sink target []) fs True
         = Some (File_descriptor (case target of None \<Rightarrow> [] | Some path \<Rightarrow> path)
                   (of_nat (length (bundle_layout fs))),
                 growing_sink target (bundle_layout fs))"
proof -
  let ?h = "metadata_bytes (accumulate_metadata fs)"
  have 1: "Output_Stream_write (growing_sink target []) ?h 24 = Some (growing_sink target ?h)"
    using write_growing_sink [of "[]" ?h target] by (simp add: length_metadata_bytes)
  have 2: "write_names (growing_sink target ?h) fs
           = Some (growing_sink target (?h @ names_section fs))"
    using assms by (intro write_names_growing_sink) (simp add: bundle_layout_def)
  have 3: "write_sizes (growing_sink target (?h @ names_section fs)) fs
           = Some (growing_sink target (?h @ names_section fs @ sizes_section fs))"
    using assms write_sizes_growing_sink [of "?h @ names_section fs" fs target]
    by (simp add: bundle_layout_def)
  have 4: "write_payloads d True (growing_sink target (?h @ names_section fs @ sizes_section fs)) fs
           = Some (growing_sink target (bundle_layout fs))"
    using assms write_payloads_growing_sink [of "?h @ names_section fs @ sizes_section fs" fs d target]
    by (simp add: bundle_layout_def)
  have "bundle_stream d (growing_sink target []) fs True
        = Some (File_descriptor (get_file_name (growing_sink target (bundle_layout fs)))
                  (get_total_bytes_written (growing_sink target (bundle_layout fs))),
                growing_sink target (bundle_layout fs))"
    by (simp add: bundle_stream_def 1 2 3 4)
  then show ?thesis
    by (simp add: growing_sink_descriptor)
qed

lemma accumulate_metadata_fold:
  "fold (\<lambda>f m.
            \<lparr>names_section_size = names_section_size m + (of_nat (length (name f)) + 1),
             sizes_section_size = sizes_section_size m + 8,
             files_section_size = files_section_size m + size_f f\<rparr>) fs m0
   = \<lparr>names_section_size = names_section_size m0 + (\<Sum>f\<leftarrow>fs. of_nat (length (name f)) + 1),
      sizes_section_size = sizes_section_size m0 + 8 * of_nat (length fs),
      files_section_size = files_section_size m0 + (\<Sum>f\<leftarrow>fs. size_f f)\<rparr>"
  by (induction fs arbitrary: m0) (simp_all add: algebra_simps)

lemma accumulate_metadata_sums:
  "accumulate_metadata fs =
     \<lparr>names_section_size = (\<Sum>f\<leftarrow>fs. of_nat (length (name f)) + 1),
      sizes_section_size = 8 * of_nat (length fs),
      files_section_size = (\<Sum>f\<leftarrow>fs. size_f f)\<rparr>"
  by (simp add: accumulate_metadata_def accumulate_metadata_fold Header_Metadata_default_def)

lemma memory_source_open:
  "open_memory Input_Stream_default (Some mem) (of_nat (length mem)) = memory_source mem 0"
  by (simp add: open_memory_def Input_Stream_default_def memory_source_def)

lemma memory_source_seekg:
  "k \<le> length mem \<Longrightarrow> length mem < 2 ^ 64 \<Longrightarrow>
   Input_Stream_seekg (memory_source mem j) (of_nat k) = memory_source mem k"
  by (simp add: Input_Stream_seekg_def memory_source_def word_le_nat_alt unat_of_nat64)

lemma read_memory_source:
  assumes "length mem < 2 ^ 64" and "k + n < length mem" and "length dst = n"
  shows "Input_Stream_read (memory_source mem k) dst (of_nat n)
         = Some (take n (drop k mem), memory_source mem (k + n))"
proof -
  have a: "unat (of_nat n :: u64) = n" and b: "unat (of_nat k :: u64) = k"
    and c: "unat (of_nat k + of_nat n :: u64) = k + n"
    and d: "unat (of_nat (length mem) :: u64) = length mem"
    using assms by (simp_all add: unat_of_nat64 flip: of_nat_add)
  show ?thesis
    using assms a b c d
    by (simp add: Input_Stream_read_def memory_source_def word_le_nat_alt)
qed

lemma read_memory_source_end:
  assumes "length mem < 2 ^ 64" and "length mem \<le> k + n" and "k + n < 2 ^ 64"
  shows "Input_Stream_read (memory_source mem k) dst (of_nat n)
         = Some (dst, memory_source mem k)"
proof -
  have c: "unat (of_nat k + of_nat n :: u64) = k + n"
    and d: "unat (of_nat (length mem) :: u64) = length mem"
    using assms by (simp_all add: unat_of_nat64 flip: of_nat_add)
  show ?thesis
    using assms c d
    by (simp add: Input_Stream_read_def memory_source_def word_le_nat_alt)
qed

lemma memory_source_neq:
  "k < 2 ^ 64 \<Longrightarrow> j < 2 ^ 64 \<Longrightarrow> k \<noteq> j \<Longrightarrow> memory_source mem k = memory_source mem j \<Longrightarrow> False"
proof -
  assume b: "k < 2 ^ 64" "j < 2 ^ 64" "k \<noteq> j" and e: "memory_source mem k = memory_source mem j"
  from e have "(of_nat k :: u64) = of_nat j"
    by (simp add: memory_source_def)
  then have "unat (of_nat k :: u64) = unat (of_nat j :: u64)"
    by simp
  with b show False
    by (simp add: unat_of_nat64)
qed

declare read_name.simps [simp del]

lemma read_name_memory_source:
  assumes "length mem < 2 ^ 64" and "mem = pre @ nm @ [0] @ post" and "post \<noteq> []"
    and "0 \<notin> set nm" and "c \<noteq> 0"
  shows "read_name (memory_source mem (length pre)) acc c
         = Some (acc @ nm @ [0], memory_source mem (length pre + length nm + 1))"
  using assms
proof (induction nm arbitrary: pre acc c)
  case Nil
  then have r: "Input_Stream_read (memory_source mem (length pre)) [c] (of_nat 1)
           = Some (take 1 (drop (length pre) mem), memory_source mem (length pre + 1))"
    by (intro read_memory_source) (cases post; simp_all)+
  from Nil have t: "take 1 (drop (length pre) mem) = [0]" by simp
  from Nil have ne: "memory_source mem (length pre + 1) \<noteq> memory_source mem (length pre)"
    using memory_source_neq [of "length pre + 1" "length pre" mem] by auto
  show ?case
    using r t ne Nil.prems(5)
    by (simp add: read_name.simps [of _ acc c] read_name.simps [of _ _ 0])
next
  case (Cons x nm)
  then have r: "Input_Stream_read (memory_source mem (length pre)) [c] (of_nat 1)
           = Some (take 1 (drop (length pre) mem), memory_source mem (length pre + 1))"
    by (intro read_memory_source) simp_all
  from Cons have t: "take 1 (drop (length pre) mem) = [x]" by simp
  from Cons have ne: "memory_source mem (length pre + 1) \<noteq> memory_source mem (length pre)"
    using memory_source_neq [of "length pre + 1" "length pre" mem] by auto
  have "read_name (memory_source mem (length (pre @ [x]))) (acc @ [x]) x
        = Some ((acc @ [x]) @ nm @ [0], memory_source mem (length (pre @ [x]) + length nm + 1))"
    using Cons.prems by (intro Cons.IH) simp_all
  then show ?case
    using r t ne Cons.prems(5)
    by (simp add: read_name.simps [of _ acc c])
qed

lemma read_names_memory_source:
  assumes "length mem < 2 ^ 64" and "mem = pre @ concat (map (\<lambda>n. n @ [0]) names) @ post"
    and "post \<noteq> []" and "\<forall>n\<in>set names. 0 \<notin> set n"
  shows "read_names (length names) (memory_source mem (length pre))
         = Some (map (\<lambda>n. n @ [0]) names,
                 memory_source mem (length pre + length (concat (map (\<lambda>n. n @ [0]) names))))"
  using assms
proof (induction names arbitrary: pre)
  case Nil
  then show ?case by simp
next
  case (Cons n names)
  let ?rest = "concat (map (\<lambda>n. n @ [0]) names) @ post"
  have 1: "read_name (memory_source mem (length pre)) [] CHAR_MAX
           = Some ([] @ n @ [0], memory_source mem (length pre + length n + 1))"
    using Cons.prems by (intro read_name_memory_source [where post = ?rest]) (simp_all add: CHAR_MAX_def)
  have 2: "read_names (length names) (memory_source mem (length (pre @ n @ [0])))
           = Some (map (\<lambda>n. n @ [0]) names,
                   memory_source mem (length (pre @ n @ [0]) + length (concat (map (\<lambda>n. n @ [0]) names))))"
    using Cons.prems by (intro Cons.IH) simp_all
  from 1 2 show ?case
    by (simp add: add.assoc)
qed

lemma bytes_u64_le_bytes: "bytes_u64 (le_bytes k w) = take_bit (8 * k) w"
proof (induction k arbitrary: w)
  case 0
  show ?case by simp
next
  case (Suc k)
  show ?case
    apply (simp add: Suc)
    apply (rule bit_word_eqI)
    apply (auto simp: bit_simps)
    done
qed

lemma bytes_u64_u64_bytes: "bytes_u64 (u64_bytes w) = w"
  by (simp add: u64_bytes_def bytes_u64_le_bytes take_bit_word_eq_self)

lemma read_sizes_memory_source:
  assumes "length mem < 2 ^ 64" and "mem = pre @ concat (map u64_bytes sizes) @ post"
    and "post \<noteq> []"
  shows "read_sizes (length sizes) (memory_source mem (length pre))
         = Some (sizes, memory_source mem (length pre + 8 * length sizes))"
  using assms
proof (induction sizes arbitrary: pre)
  case Nil
  then show ?case by simp
next
  case (Cons x sizes)
  have 1: "Input_Stream_read (memory_source mem (length pre)) (u64_bytes 0) (of_nat 8)
           = Some (take 8 (drop (length pre) mem), memory_source mem (length pre + 8))"
    using Cons.prems by (intro read_memory_source) (simp_all add: length_u64_bytes)
  have t: "take 8 (drop (length pre) mem) = u64_bytes x"
    using Cons.prems by (simp add: length_u64_bytes)
  have 2: "read_sizes (length sizes) (memory_source mem (length (pre @ u64_bytes x)))
           = Some (sizes, memory_source mem (length (pre @ u64_bytes x) + 8 * length sizes))"
    using Cons.prems by (intro Cons.IH) simp_all
  from 1 2 t show ?case
    by (simp add: length_u64_bytes bytes_u64_u64_bytes add.assoc)
qed

text \<open>With nothing after the sizes, the last read is the one that reaches the end.\<close>

lemma read_sizes_memory_source_end:
  assumes "length mem < 2 ^ 64" and "mem = pre @ concat (map u64_bytes sizes)"
    and "sizes \<noteq> []"
  shows "\<exists>s. read_sizes (length sizes) (memory_source mem (length pre))
         = Some (butlast sizes @ [0], s)"
  using assms
proof (induction sizes arbitrary: pre)
  case Nil
  then show ?case by simp
next
  case (Cons x sizes)
  show ?case
  proof (cases "sizes = []")
    case True
    have "Input_Stream_read (memory_source mem (length pre)) (u64_bytes 0) (of_nat 8)
           = Some (u64_bytes 0, memory_source mem (length pre))"
      using Cons.prems True by (intro read_memory_source_end) (simp_all add: length_u64_bytes)
    with True show ?thesis
      by (simp add: bytes_u64_u64_bytes)
  next
    case False
    have 1: "Input_Stream_read (memory_source mem (length pre)) (u64_bytes 0) (of_nat 8)
             = Some (take 8 (drop (length pre) mem), memory_source mem (length pre + 8))"
      using Cons.prems False
      by (intro read_memory_source) (cases sizes; simp_all add: length_u64_bytes)+
    have t: "take 8 (drop (length pre) mem) = u64_bytes x"
      using Cons.prems by (simp add: length_u64_bytes)
    have "\<exists>s. read_sizes (length sizes) (memory_source mem (length (pre @ u64_bytes x)))
             = Some (butlast sizes @ [0], s)"
      using Cons.prems False by (intro Cons.IH) simp_all
    with 1 t False show ?thesis
      by (auto simp add: length_u64_bytes bytes_u64_u64_bytes)
  qed
qed

lemma write_fixed_sink:
  assumes "length (w @ x # r) < 2 ^ 64"
  shows "Output_Stream_write (fixed_sink (w @ x # r) (length w)) [b] 1
         = Some (fixed_sink ((w @ [b]) @ r) (length (w @ [b])))"
proof -
  have a: "unat (of_nat (length w) :: u64) = length w"
    using assms by (simp add: unat_of_nat64)
  show ?thesis
    using assms a by (simp add: Output_Stream_write_def fixed_sink_def add.commute)
qed

lemma copy_bytes_memory:
  assumes "length mem < 2 ^ 64" and "k + n < length mem" and "n \<le> length r"
    and "length (w @ r) < 2 ^ 64"
  shows "copy_bytes n (memory_source mem k) (fixed_sink (w @ r) (length w))
         = Some (memory_source mem (k + n),
                 fixed_sink (w @ take n (drop k mem) @ drop n r) (length w + n))"
  using assms
proof (induction n arbitrary: k w r)
  case 0
  then show ?case by simp
next
  case (Suc n)
  from Suc.prems obtain x r' where r: "r = x # r'"
    by (cases r) auto
  have 1: "Input_Stream_read (memory_source mem k) [CHAR_MAX] (of_nat 1)
           = Some (take 1 (drop k mem), memory_source mem (k + 1))"
    using Suc.prems by (intro read_memory_source) simp_all
  have t: "take 1 (drop k mem) = [mem ! k]"
    using Suc.prems by (simp add: take_Suc_conv_app_nth)
  have 2: "Output_Stream_write (fixed_sink (w @ x # r') (length w)) [mem ! k] 1
           = Some (fixed_sink ((w @ [mem ! k]) @ r') (length (w @ [mem ! k])))"
    using Suc.prems r by (intro write_fixed_sink) simp
  have 3: "copy_bytes n (memory_source mem (k + 1))
             (fixed_sink ((w @ [mem ! k]) @ r') (length (w @ [mem ! k])))
           = Some (memory_source mem (k + 1 + n),
                   fixed_sink ((w @ [mem ! k]) @ take n (drop (k + 1) mem) @ drop n r')
                     (length (w @ [mem ! k]) + n))"
    using Suc.prems r by (intro Suc.IH) simp_all
  have 4: "take (Suc n) (drop k mem) = mem ! k # take n (drop (k + 1) mem)"
    using Suc.prems by (simp add: Cons_nth_drop_Suc [symmetric])
  show ?case
    using 1 t 2 3 by (simp add: r 4)
qed

lemma copy_bytes_memory_end:
  assumes "length mem < 2 ^ 64" and "k + n = length mem" and "0 < n" and "n \<le> length r"
    and "length (w @ r) < 2 ^ 64"
  shows "copy_bytes n (memory_source mem k) (fixed_sink (w @ r) (length w))
         = Some (memory_source mem (k + n - 1),
                 fixed_sink (w @ butlast (drop k mem) @ [CHAR_MAX] @ drop n r) (length w + n))"
  using assms
proof (induction n arbitrary: k w r)
  case 0
  then show ?case by simp
next
  case (Suc n)
  from Suc.prems obtain x r' where r: "r = x # r'"
    by (cases r) auto
  show ?case
  proof (cases "n = 0")
    case True
    have 1: "Input_Stream_read (memory_source mem k) [CHAR_MAX] (of_nat 1)
             = Some ([CHAR_MAX], memory_source mem k)"
      using Suc.prems True by (intro read_memory_source_end) simp_all
    have 2: "Output_Stream_write (fixed_sink (w @ x # r') (length w)) [CHAR_MAX] 1
             = Some (fixed_sink ((w @ [CHAR_MAX]) @ r') (length (w @ [CHAR_MAX])))"
      using Suc.prems r by (intro write_fixed_sink) simp
    from Suc.prems True have "length (drop k mem) = 1"
      by simp
    then have 3: "butlast (drop k mem) = []"
      by (cases "drop k mem") simp_all
    show ?thesis
      using 1 2 3 True by (simp add: r)
  next
    case False
    have 1: "Input_Stream_read (memory_source mem k) [CHAR_MAX] (of_nat 1)
             = Some (take 1 (drop k mem), memory_source mem (k + 1))"
      using Suc.prems False by (intro read_memory_source) simp_all
    have t: "take 1 (drop k mem) = [mem ! k]"
      using Suc.prems by (simp add: take_Suc_conv_app_nth)
    have 2: "Output_Stream_write (fixed_sink (w @ x # r') (length w)) [mem ! k] 1
             = Some (fixed_sink ((w @ [mem ! k]) @ r') (length (w @ [mem ! k])))"
      using Suc.prems r by (intro write_fixed_sink) simp
    have 3: "copy_bytes n (memory_source mem (k + 1))
               (fixed_sink ((w @ [mem ! k]) @ r') (length (w @ [mem ! k])))
             = Some (memory_source mem (k + 1 + n - 1),
                     fixed_sink ((w @ [mem ! k]) @ butlast (drop (k + 1) mem) @ [CHAR_MAX]
                                   @ drop n r')
                       (length (w @ [mem ! k]) + n))"
      using Suc.prems r False by (intro Suc.IH) simp_all
    have 4: "drop k mem = mem ! k # drop (k + 1) mem"
      using Suc.prems by (simp add: Cons_nth_drop_Suc)
    have 5: "drop (k + 1) mem \<noteq> []"
      using Suc.prems False by simp
    have 6: "butlast (drop k mem) = mem ! k # butlast (drop (k + 1) mem)"
      using 5 by (subst 4) simp
    show ?thesis
      using 1 t 2 3 False by (simp add: r 6)
  qed
qed

lemma files_section_Cons: "files_section (f # fs) = bytes f @ files_section fs"
  by (simp add: files_section_def)

lemma extract_sink_empty:
  "open_memory Output_Stream_default (vector_data (resize [] 0)) 0 = Output_Stream_default"
  by (simp add: open_memory_def vector_data_def resize_def Output_Stream_default_def)

lemma extract_sink_nonempty:
  "0 < n \<Longrightarrow> n < 2 ^ 64 \<Longrightarrow>
   open_memory Output_Stream_default (vector_data (resize [] n)) (of_nat n)
     = fixed_sink ([] @ replicate n 0) (length ([] :: byte list))"
  by (simp add: open_memory_def vector_data_def resize_def Output_Stream_default_def
        fixed_sink_def)

lemma memory_contents_fixed_sink: "memory_contents (fixed_sink region j) = region"
  by (simp add: memory_contents_def fixed_sink_def)

lemma memory_contents_default: "memory_contents Output_Stream_default = []"
  by (simp add: memory_contents_def Output_Stream_default_def)

lemma extract_files_empty_payloads:
  assumes "\<forall>f\<in>set fs. bytes f = [] \<and> size_f f = 0"
  shows "extract_files d True s (map (\<lambda>f. (name f @ [0], size_f f)) fs)
         = Some (debundled_from_memory fs, [])"
  using assms
proof (induction fs)
  case Nil
  show ?case by simp
next
  case (Cons f fs)
  then have "files_section fs = concat (map bytes fs)" by (simp add: files_section_def)
  with Cons show ?case
    by (simp add: INT_MAX_def extract_sink_empty memory_contents_default)
qed

lemma extract_files_memory_source:
  assumes "length mem < 2 ^ 64" and "mem = pre @ files_section fs"
    and "\<forall>f\<in>set fs. of_nat (length (bytes f)) = size_f f \<and> length (bytes f) \<le> INT_MAX"
  shows "extract_files d True (memory_source mem (length pre))
           (map (\<lambda>f. (name f @ [0], size_f f)) fs)
         = Some (debundled_from_memory fs, [])"
  using assms
proof (induction fs arbitrary: pre)
  case Nil
  show ?case by simp
next
  case (Cons f fs)
  let ?n = "length (bytes f)"
  from Cons.prems have sz: "size_f f = of_nat ?n" and le: "?n \<le> INT_MAX"
    by simp_all
  from le have u: "unat (of_nat ?n :: u64) = ?n" and b: "?n < 2 ^ 64"
    by (simp_all add: INT_MAX_def unat_of_nat64)
  from Cons.prems have rest: "\<forall>f\<in>set fs. of_nat (length (bytes f)) = size_f f \<and> length (bytes f) \<le> INT_MAX"
    by simp
  show ?case
  proof (cases "bytes f = []")
    case True
    have "extract_files d True (memory_source mem (length pre))
            (map (\<lambda>f. (name f @ [0], size_f f)) fs) = Some (debundled_from_memory fs, [])"
      using Cons.prems True by (intro Cons.IH) (simp_all add: files_section_Cons)
    with True sz show ?thesis
      by (simp add: INT_MAX_def extract_sink_empty memory_contents_default)
  next
    case False
    then have pos: "0 < ?n" by simp
    show ?thesis
    proof (cases "files_section fs = []")
      case True
      then have e: "\<forall>f\<in>set fs. bytes f = [] \<and> size_f f = 0"
        using rest by (auto simp: files_section_def)
      have c: "copy_bytes ?n (memory_source mem (length pre))
                 (fixed_sink ([] @ replicate ?n 0) (length ([] :: byte list)))
               = Some (memory_source mem (length pre + ?n - 1),
                       fixed_sink ([] @ butlast (drop (length pre) mem) @ [CHAR_MAX]
                                     @ drop ?n (replicate ?n 0))
                         (length ([] :: byte list) + ?n))"
        using Cons.prems True pos b
        by (intro copy_bytes_memory_end) (simp_all add: files_section_Cons)
      have d: "drop (length pre) mem = bytes f"
        using Cons.prems True by (simp add: files_section_Cons)
      from c d e le u pos b True False show ?thesis
        by (simp add: sz extract_sink_nonempty extract_files_empty_payloads
              memory_contents_fixed_sink)
    next
      case False
      have c: "copy_bytes ?n (memory_source mem (length pre))
                 (fixed_sink ([] @ replicate ?n 0) (length ([] :: byte list)))
               = Some (memory_source mem (length pre + ?n),
                       fixed_sink ([] @ take ?n (drop (length pre) mem)
                                     @ drop ?n (replicate ?n 0))
                         (length ([] :: byte list) + ?n))"
        using Cons.prems False pos b
        by (intro copy_bytes_memory) (simp_all add: files_section_Cons)
      have d: "take ?n (drop (length pre) mem) = bytes f"
        using Cons.prems by (simp add: files_section_Cons)
      have i: "extract_files d True (memory_source mem (length (pre @ bytes f)))
                 (map (\<lambda>f. (name f @ [0], size_f f)) fs) = Some (debundled_from_memory fs, [])"
        using Cons.prems by (intro Cons.IH) (simp_all add: files_section_Cons)
      from c d i le u pos b False show ?thesis
        by (simp add: sz extract_sink_nonempty memory_contents_fixed_sink)
    qed
  qed
qed

lemma metadata_of_bytes_metadata_bytes: "metadata_of_bytes (metadata_bytes m) = m"
  by (simp add: metadata_of_bytes_def metadata_bytes_def length_u64_bytes bytes_u64_u64_bytes)

lemma number_of_bundled_files:
  assumes "n \<le> INT_MAX"
  shows "unat ((8 * of_nat n :: u64) div 8) = n"
proof -
  from assms have "8 * n < 2 ^ 64"
    by (simp add: INT_MAX_def)
  then have "unat (of_nat (8 * n) :: u64) = 8 * n"
    by (rule unat_of_nat64)
  then have "unat (8 * of_nat n :: u64) = 8 * n"
    by simp
  then show ?thesis
    by (simp add: unat_div)
qed

lemma length_names_section:
  "length (names_section fs) = (\<Sum>f\<leftarrow>fs. length (name f) + 1)"
  by (induction fs) (simp_all add: names_section_def)

lemma length_sizes_section: "length (sizes_section fs) = 8 * length fs"
  by (induction fs) (simp_all add: sizes_section_def length_u64_bytes)

lemma names_section_map:
  "names_section fs = concat (map (\<lambda>n. n @ [0]) (map name fs))"
  by (simp add: names_section_def comp_def)

lemma sizes_section_map:
  "sizes_section fs = concat (map u64_bytes (map size_f fs))"
  by (simp add: sizes_section_def comp_def)

lemma zip_names_sizes:
  "zip (map (\<lambda>n. n @ [0]) (map name fs)) (map size_f fs)
   = map (\<lambda>f. (name f @ [0], size_f f)) fs"
  by (induction fs) simp_all

text \<open>The header and the names of a bundle, read back: what is left are the sizes.\<close>

lemma debundle_bundle_layout_names:
  assumes ne: "fs \<noteq> []"
    and len: "length (bundle_layout fs) < 2 ^ 64"
    and cnt: "length fs \<le> INT_MAX"
    and names: "\<forall>f\<in>set fs. 0 \<notin> set (name f)"
  shows "debundle_memory_to_memory creatable d (Some (bundle_layout fs))
           (of_nat (length (bundle_layout fs)))
         = read_sizes (length fs)
             (memory_source (bundle_layout fs) (24 + length (names_section fs)))
           \<bind> (\<lambda>(sizes_of_bundled_files, s4).
                 directory_tree_effects creatable True [] (map (\<lambda>f. name f @ [0]) fs)
                 \<bind> (\<lambda>directories.
                       extract_files d True s4
                         (zip (map (\<lambda>f. name f @ [0]) fs) sizes_of_bundled_files)
                       \<bind> (\<lambda>(debundled_files, effects).
                             Some (debundled_files, directories @ effects))))"
proof -
  let ?mem = "bundle_layout fs"
  let ?h = "metadata_bytes (accumulate_metadata fs)"
  let ?names = "map name fs"
  have mem: "?mem = ?h @ names_section fs @ sizes_section fs @ files_section fs"
    by (simp add: bundle_layout_def)
  from ne have sizes_ne: "sizes_section fs \<noteq> []"
    by (cases fs) (simp_all add: sizes_section_def u64_bytes_unfold)
  then have big: "24 < length ?mem"
    by (cases "sizes_section fs") (simp_all add: mem length_metadata_bytes)
  have 1: "Input_Stream_read (memory_source ?mem 0) (metadata_bytes Header_Metadata_default)
             (of_nat 24)
           = Some (take 24 (drop 0 ?mem), memory_source ?mem (0 + 24))"
    using len big by (intro read_memory_source) (simp_all add: length_metadata_bytes)
  have t: "take 24 (drop 0 ?mem) = ?h"
    by (simp add: mem length_metadata_bytes)
  have n: "unat (sizes_section_size (accumulate_metadata fs) div 8) = length fs"
    using cnt by (simp add: accumulate_metadata_sums number_of_bundled_files)
  have 2: "Input_Stream_seekg (memory_source ?mem (0 + 24)) (of_nat 24) = memory_source ?mem 24"
    using len big by (intro memory_source_seekg) simp_all
  have 3: "read_names (length ?names) (memory_source ?mem (length ?h))
           = Some (map (\<lambda>n. n @ [0]) ?names,
                   memory_source ?mem (length ?h + length (concat (map (\<lambda>n. n @ [0]) ?names))))"
    using len names sizes_ne
    by (intro read_names_memory_source [where post = "sizes_section fs @ files_section fs"])
       (simp_all add: mem names_section_map)
  have F1: "Input_Stream_read (memory_source ?mem 0) (metadata_bytes Header_Metadata_default) 24
            = Some (?h, memory_source ?mem 24)"
    using 1 t by simp
  have F4: "Input_Stream_seekg (memory_source ?mem 24) 24 = memory_source ?mem 24"
    using 2 by simp
  have F5: "\<not> INT_MAX < length fs"
    using cnt by simp
  have F6: "read_names (length fs) (memory_source ?mem 24)
            = Some (map (\<lambda>f. name f @ [0]) fs,
                    memory_source ?mem (24 + length (names_section fs)))"
    using 3 by (simp add: length_metadata_bytes names_section_map comp_def)
  show ?thesis
    by (simp add: debundle_memory_to_memory_def debundle_stream_def memory_source_open
          F1 metadata_of_bytes_metadata_bytes n F4 F5 F6)
qed

lemma debundle_bundle_layout:
  assumes ne: "fs \<noteq> []"
    and len: "length (bundle_layout fs) < 2 ^ 64"
    and cnt: "length fs \<le> INT_MAX"
    and files: "\<forall>f\<in>set fs. 0 \<notin> set (name f) \<and> of_nat (length (bytes f)) = size_f f
                  \<and> length (bytes f) \<le> INT_MAX"
  shows "debundle_memory_to_memory creatable d (Some (bundle_layout fs))
           (of_nat (length (bundle_layout fs)))
         = map_option (Pair (debundled_from_memory fs))
             (directory_tree_effects creatable True [] (map (\<lambda>f. name f @ [0]) fs))"
proof -
  let ?mem = "bundle_layout fs"
  let ?h = "metadata_bytes (accumulate_metadata fs)"
  let ?sizes = "map size_f fs"
  let ?pre = "?h @ names_section fs"
  have mem: "?mem = ?h @ names_section fs @ sizes_section fs @ files_section fs"
    by (simp add: bundle_layout_def)
  have 4: "\<exists>s. read_sizes (length ?sizes) (memory_source ?mem (length ?pre)) = Some (?sizes, s)
             \<and> extract_files d True s (map (\<lambda>f. (name f @ [0], size_f f)) fs)
                 = Some (debundled_from_memory fs, [])"
  proof (cases "files_section fs = []")
    case True
    then have e: "\<forall>f\<in>set fs. bytes f = [] \<and> size_f f = 0"
      using files by (auto simp: files_section_def)
    from ne e have l: "butlast ?sizes @ [0] = ?sizes"
      by (induction fs rule: rev_induct) simp_all
    have "\<exists>s. read_sizes (length ?sizes) (memory_source ?mem (length ?pre))
               = Some (butlast ?sizes @ [0], s)"
      using len ne True
      by (intro read_sizes_memory_source_end) (simp_all add: mem sizes_section_map)
    with l e show ?thesis
      by (auto simp: extract_files_empty_payloads)
  next
    case False
    have r: "read_sizes (length ?sizes) (memory_source ?mem (length ?pre))
             = Some (?sizes, memory_source ?mem (length ?pre + 8 * length ?sizes))"
      using len False
      by (intro read_sizes_memory_source [where post = "files_section fs"])
         (simp_all add: mem sizes_section_map)
    have "extract_files d True (memory_source ?mem (length (?pre @ sizes_section fs)))
            (map (\<lambda>f. (name f @ [0], size_f f)) fs) = Some (debundled_from_memory fs, [])"
      using len files by (intro extract_files_memory_source) (simp_all add: mem)
    with r show ?thesis
      by (simp add: length_sizes_section add.assoc)
  qed
  then obtain s where
    5: "read_sizes (length ?sizes) (memory_source ?mem (length ?pre)) = Some (?sizes, s)"
    and 6: "extract_files d True s (map (\<lambda>f. (name f @ [0], size_f f)) fs)
            = Some (debundled_from_memory fs, [])"
    by auto
  have F7: "read_sizes (length fs) (memory_source ?mem (24 + length (names_section fs)))
            = Some (map size_f fs, s)"
    using 5 by (simp add: length_metadata_bytes)
  have F8: "extract_files d True s (zip (map (\<lambda>f. name f @ [0]) fs) (map size_f fs))
            = Some (debundled_from_memory fs, [])"
    using 6 zip_names_sizes [of fs] by (simp add: comp_def)
  from files have names: "\<forall>f\<in>set fs. 0 \<notin> set (name f)"
    by simp
  show ?thesis
    by (cases "directory_tree_effects creatable True [] (map (\<lambda>f. name f @ [0]) fs)")
       (simp_all add: debundle_bundle_layout_names [OF ne len cnt names] F7 F8)
qed

text \<open>A payload longer than \<open>INT_MAX\<close> bytes: the counter of the copy loop overflows.\<close>

lemma debundle_payload_too_long:
  assumes n: "0 \<notin> set n" and long: "INT_MAX < length p"
    and len: "length (bundle_layout [File_from_vector n p]) < 2 ^ 64"
  shows "debundle_memory_to_memory creatable d (Some (bundle_layout [File_from_vector n p]))
           (of_nat (length (bundle_layout [File_from_vector n p]))) = None"
proof -
  let ?fs = "[File_from_vector n p]"
  let ?mem = "bundle_layout ?fs"
  let ?h = "metadata_bytes (accumulate_metadata ?fs)"
  have mem: "?mem = (?h @ names_section ?fs) @ concat (map u64_bytes [of_nat (length p)]) @ p"
    by (simp add: bundle_layout_def sizes_section_def files_section_def File_from_vector_def)
  from long have p: "p \<noteq> []"
    by (auto simp: INT_MAX_def)
  have lp: "length p < 2 ^ 64"
    using len by (simp add: bundle_layout_def files_section_def File_from_vector_def)
  have r: "read_sizes (length [of_nat (length p) :: u64])
             (memory_source ?mem (length (?h @ names_section ?fs)))
           = Some ([of_nat (length p)],
                   memory_source ?mem (length (?h @ names_section ?fs)
                                       + 8 * length [of_nat (length p) :: u64]))"
    by (rule read_sizes_memory_source [OF len mem p])
  have F7: "read_sizes (length ?fs) (memory_source ?mem (24 + length (names_section ?fs)))
            = Some ([of_nat (length p)],
                    memory_source ?mem (24 + length (names_section ?fs) + 8))"
    using r by (simp add: length_metadata_bytes)
  have u: "unat (of_nat (length p) :: u64) = length p"
    using lp by (rule unat_of_nat64)
  have names: "\<forall>f\<in>set ?fs. 0 \<notin> set (name f)"
    using n by (simp add: File_from_vector_def)
  have "debundle_memory_to_memory creatable d (Some ?mem) (of_nat (length ?mem))
        = read_sizes (length ?fs) (memory_source ?mem (24 + length (names_section ?fs)))
          \<bind> (\<lambda>(sizes_of_bundled_files, s4).
                directory_tree_effects creatable True [] (map (\<lambda>f. name f @ [0]) ?fs)
                \<bind> (\<lambda>directories.
                      extract_files d True s4
                        (zip (map (\<lambda>f. name f @ [0]) ?fs) sizes_of_bundled_files)
                      \<bind> (\<lambda>(debundled_files, effects).
                            Some (debundled_files, directories @ effects))))"
    using len names by (intro debundle_bundle_layout_names) (simp_all add: INT_MAX_def)
  also have "\<dots> = None"
    using long u
    by (cases "directory_tree_effects creatable True [] (map (\<lambda>f. name f @ [0]) ?fs)")
       (simp_all only: F7, simp_all)
  finally show ?thesis .
qed

section \<open>Bundling to any sink, and debundling what was bundled\<close>

lemma length_files_section: "length (files_section fs) = (\<Sum>f\<leftarrow>fs. length (bytes f))"
  by (induction fs) (simp_all add: files_section_def)

lemma length_bundle_layout:
  "length (bundle_layout fs) = 24 + (\<Sum>f\<leftarrow>fs. length (name f) + 1 + 8 + length (bytes f))"
proof -
  have "(\<Sum>f\<leftarrow>fs. length (name f) + 1 + 8 + length (bytes f))
        = (\<Sum>f\<leftarrow>fs. length (name f) + 1) + 8 * length fs + (\<Sum>f\<leftarrow>fs. length (bytes f))"
    by (induction fs) simp_all
  then show ?thesis
    by (simp add: bundle_layout_def length_metadata_bytes length_names_section
          length_sizes_section length_files_section)
qed

lemma bundle_memory_to_memory_layout:
  assumes "length (bundle_layout fs) < 2 ^ 64"
  shows "bundle_memory_to_memory d fs
         = Some \<lparr>name = [], size_f = of_nat (length (bundle_layout fs)),
                 bytes = bundle_layout fs\<rparr>"
  using bundle_stream_growing_sink [OF assms, of d None]
  by (simp add: bundle_memory_to_memory_def growing_sink_vector File_descriptor_def
        memory_contents_def growing_sink_def)

lemma bundle_memory_to_disk_layout:
  assumes "length (bundle_layout fs) < 2 ^ 64"
  shows "bundle_memory_to_disk d path fs
         = Some (File_descriptor path (of_nat (length (bundle_layout fs))),
                 [append_file path (bundle_layout fs)])"
  using bundle_stream_growing_sink [OF assms, of d "Some path"]
  by (simp add: bundle_memory_to_disk_def growing_sink_file growing_sink_def)

text \<open>The sink's name has no part in what is written, and neither has the disk.\<close>

lemma write_renamed:
  "Output_Stream_write (s\<lparr>file_name := p\<rparr>) src n
   = map_option (\<lambda>s'. s'\<lparr>file_name := p\<rparr>) (Output_Stream_write s src n)"
  by (cases "memory s") (auto simp: Output_Stream_write_def Let_def)

lemma write_names_renamed:
  "write_names (s\<lparr>file_name := p\<rparr>) fs
   = map_option (\<lambda>s'. s'\<lparr>file_name := p\<rparr>) (write_names s fs)"
proof (induction fs arbitrary: s)
  case Nil
  show ?case by simp
next
  case (Cons f fs)
  show ?case
    by (cases "Output_Stream_write s (name f @ [0]) (of_nat (length (name f)) + 1)")
       (simp_all add: write_renamed Cons.IH)
qed

lemma write_sizes_renamed:
  "write_sizes (s\<lparr>file_name := p\<rparr>) fs
   = map_option (\<lambda>s'. s'\<lparr>file_name := p\<rparr>) (write_sizes s fs)"
proof (induction fs arbitrary: s)
  case Nil
  show ?case by simp
next
  case (Cons f fs)
  show ?case
    by (cases "Output_Stream_write s (u64_bytes (size_f f)) 8")
       (simp_all add: write_renamed Cons.IH)
qed

lemma write_payloads_renamed:
  "write_payloads d True (s\<lparr>file_name := p\<rparr>) fs
   = map_option (\<lambda>s'. s'\<lparr>file_name := p\<rparr>) (write_payloads d' True s fs)"
proof (induction fs arbitrary: s)
  case Nil
  show ?case by simp
next
  case (Cons f fs)
  show ?case
    by (cases "Output_Stream_write s (bytes f) (of_nat (length (bytes f)))")
       (simp_all add: write_renamed Cons.IH)
qed

lemma bundle_stream_renamed:
  "bundle_stream d (s\<lparr>file_name := p\<rparr>) fs True
   = map_option (\<lambda>(package, s'). (package\<lparr>name := p\<rparr>, s'\<lparr>file_name := p\<rparr>))
       (bundle_stream d' s fs True)"
proof -
  let ?h = "metadata_bytes (accumulate_metadata fs)"
  show ?thesis
  proof (cases "Output_Stream_write s ?h 24")
    case None
    then show ?thesis by (simp add: bundle_stream_def write_renamed)
  next
    case (Some s1)
    show ?thesis
    proof (cases "write_names s1 fs")
      case None
      with Some show ?thesis
        by (simp add: bundle_stream_def write_renamed write_names_renamed)
    next
      case n: (Some s2)
      show ?thesis
      proof (cases "write_sizes s2 fs")
        case None
        with Some n show ?thesis
          by (simp add: bundle_stream_def write_renamed write_names_renamed
                write_sizes_renamed)
      next
        case z: (Some s3)
        show ?thesis
        proof (cases "write_payloads d' True s3 fs")
          case None
          with Some n z show ?thesis
            by (simp add: bundle_stream_def write_renamed write_names_renamed
                  write_sizes_renamed write_payloads_renamed [of d _ _ _ d'])
        next
          case w: (Some s4)
          with Some n z show ?thesis
            by (simp add: bundle_stream_def write_renamed write_names_renamed
                  write_sizes_renamed write_payloads_renamed [of d _ _ _ d']
                  File_descriptor_def get_file_name_def get_total_bytes_written_def)
        qed
      qed
    qed
  qed
qed

lemma open_file_renamed:
  "open_file d2 Output_Stream_default path2 out_binary_app
   = (open_file d1 Output_Stream_default path1 out_binary_app)\<lparr>file_name := path2\<rparr>"
  by (simp add: open_file_def fstream_open_def)

text \<open>What debundling from memory returns, against what was bundled.\<close>

lemma length_debundled_from_memory: "length (debundled_from_memory fs) = length fs"
  by (induction fs) simp_all

lemma size_debundled_from_memory: "map size_f (debundled_from_memory fs) = map size_f fs"
  by (induction fs) simp_all

lemma c_str_terminated: "0 \<notin> set n \<Longrightarrow> c_str (n @ [0]) = n"
  by (induction n) (simp_all add: c_str_def)

lemma name_debundled_from_memory:
  "\<forall>f\<in>set fs. 0 \<notin> set (name f) \<Longrightarrow>
   map (c_str \<circ> name) (debundled_from_memory fs) = map name fs"
  by (induction fs) (simp_all add: c_str_terminated)

lemma payload_length_debundled_from_memory:
  "map (length \<circ> bytes) (debundled_from_memory fs) = map (length \<circ> bytes) fs"
  by (induction fs) (auto simp: files_section_def)

lemma payload_debundled_from_memory:
  "concat (map bytes (debundled_from_memory fs))
   = (if files_section fs = [] then [] else butlast (files_section fs) @ [CHAR_MAX])"
proof (induction fs)
  case Nil
  show ?case by (simp add: files_section_def)
next
  case (Cons f fs)
  show ?case
    using Cons.IH by (auto simp: files_section_Cons butlast_append)
qed

lemma debundle_empty_bundle:
  "debundle_memory_to_memory creatable d (Some (bundle_layout []))
     (of_nat (length (bundle_layout [])))
   = Some ([], [])"
  by (simp add: bundle_layout_def names_section_def sizes_section_def files_section_def
        bundle_eval debundle_eval)

section \<open>Files made from names and contents\<close>

lemma in_memory_files_fields:
  "map name (in_memory_files entries) = map fst entries"
  "map size_f (in_memory_files entries) = map (of_nat \<circ> length \<circ> snd) entries"
  "map bytes (in_memory_files entries) = map snd entries"
  by (simp_all add: in_memory_files_def File_from_vector_def case_prod_beta comp_def)

lemma length_in_memory_files: "length (in_memory_files entries) = length entries"
  by (simp add: in_memory_files_def)

lemma in_memory_files_well_formed:
  assumes "\<forall>(n, p)\<in>set entries. 0 \<notin> set n \<and> length p \<le> INT_MAX"
  shows "\<forall>f\<in>set (in_memory_files entries).
           0 \<notin> set (name f) \<and> of_nat (length (bytes f)) = size_f f
           \<and> length (bytes f) \<le> INT_MAX"
  using assms by (auto simp: in_memory_files_def File_from_vector_def)

lemma length_bundle_layout_in_memory_files:
  "length (bundle_layout (in_memory_files entries))
   = 24 + (\<Sum>(n, p)\<leftarrow>entries. length n + 1 + 8 + length p)"
proof -
  have "(\<Sum>f\<leftarrow>in_memory_files entries. length (name f) + 1 + 8 + length (bytes f))
        = (\<Sum>(n, p)\<leftarrow>entries. length n + 1 + 8 + length p)"
    by (induction entries) (simp_all add: in_memory_files_def File_from_vector_def case_prod_beta)
  then show ?thesis
    by (simp add: length_bundle_layout)
qed

lemma files_section_in_memory_files:
  "files_section (in_memory_files entries) = concat (map snd entries)"
  by (simp add: files_section_def in_memory_files_fields)

lemma listed_files_fields:
  "map name (listed_files entries) = map fst entries"
  "map size_f (listed_files entries) = map (of_nat \<circ> length \<circ> snd) entries"
  by (simp_all add: listed_files_def File_descriptor_def case_prod_beta comp_def)

lemma listed_files_sections:
  "names_section (listed_files entries) = names_section (in_memory_files entries)"
  "sizes_section (listed_files entries) = sizes_section (in_memory_files entries)"
  "accumulate_metadata (listed_files entries) = accumulate_metadata (in_memory_files entries)"
proof -
  have n: "map name (listed_files entries) = map name (in_memory_files entries)"
    and z: "map size_f (listed_files entries) = map size_f (in_memory_files entries)"
    by (simp_all add: listed_files_fields in_memory_files_fields)
  have l: "length (listed_files entries) = length (in_memory_files entries)"
    by (simp add: listed_files_def in_memory_files_def)
  show "names_section (listed_files entries) = names_section (in_memory_files entries)"
    by (simp only: names_section_map n)
  show "sizes_section (listed_files entries) = sizes_section (in_memory_files entries)"
    by (simp only: sizes_section_map z)
  have "(\<Sum>f\<leftarrow>listed_files entries. of_nat (length (name f)) + 1 :: u64)
        = (\<Sum>f\<leftarrow>in_memory_files entries. of_nat (length (name f)) + 1)"
    by (induction entries)
       (simp_all add: listed_files_def in_memory_files_def File_descriptor_def
          File_from_vector_def case_prod_beta)
  moreover have "(\<Sum>f\<leftarrow>listed_files entries. size_f f)
        = (\<Sum>f\<leftarrow>in_memory_files entries. size_f f)"
    by (induction entries)
       (simp_all add: listed_files_def in_memory_files_def File_descriptor_def
          File_from_vector_def case_prod_beta)
  ultimately show
    "accumulate_metadata (listed_files entries) = accumulate_metadata (in_memory_files entries)"
    by (simp add: accumulate_metadata_sums l)
qed

section \<open>The directory loop\<close>

lemma directory_tree_effects_to_disk:
  "directory_tree_effects creatable False p_output_directory names = Some []"
  by (cases names) simp_all

lemma directory_tree_effects_requested:
  "directory_tree_effects creatable True p_output_directory names
   = (if \<forall>path\<in>set (requested_directories p_output_directory names). creatable path
      then Some (map create_directories (requested_directories p_output_directory names))
      else None)"
  by (induction names) (auto simp: requested_directories_def)

section \<open>Debundling from a file\<close>

lemma file_source_open:
  "d (c_str path) = Some c \<Longrightarrow>
   open_file d Input_Stream_default path in_binary = file_source path c 0"
  by (simp add: open_file_def Input_Stream_default_def file_source_def fstream_open_def)

lemma file_source_seekg:
  "k < 2 ^ 64 \<Longrightarrow>
   Input_Stream_seekg (file_source path c g) (of_nat k) = file_source path c k"
  by (simp add: Input_Stream_seekg_def file_source_def fstream_seekg_def unat_of_nat64)

lemma read_file_source:
  assumes "g + n \<le> length c" and "n < 2 ^ 64" and "length dst = n"
  shows "Input_Stream_read (file_source path c g) dst (of_nat n)
         = Some (take n (drop g c), file_source path c (g + n))"
  using assms
  by (simp add: Input_Stream_read_def file_source_def fstream_read_def unat_of_nat64 Let_def)

lemma file_source_neq: "file_source path c (g + 1) \<noteq> file_source path c g"
  by (simp add: file_source_def)

lemma read_name_file_source:
  assumes "c = pre @ nm @ [0] @ post" and "0 \<notin> set nm" and "ch \<noteq> 0"
  shows "read_name (file_source path c (length pre)) acc ch
         = Some (acc @ nm @ [0], file_source path c (length pre + length nm + 1))"
  using assms
proof (induction nm arbitrary: pre acc ch)
  case Nil
  then have r: "Input_Stream_read (file_source path c (length pre)) [ch] (of_nat 1)
           = Some (take 1 (drop (length pre) c), file_source path c (length pre + 1))"
    by (intro read_file_source) simp_all
  from Nil have t: "take 1 (drop (length pre) c) = [0]" by simp
  show ?case
    using r t file_source_neq [of path c "length pre"] Nil.prems(3)
    by (simp add: read_name.simps [of _ acc ch] read_name.simps [of _ _ 0])
next
  case (Cons x nm)
  then have r: "Input_Stream_read (file_source path c (length pre)) [ch] (of_nat 1)
           = Some (take 1 (drop (length pre) c), file_source path c (length pre + 1))"
    by (intro read_file_source) simp_all
  from Cons have t: "take 1 (drop (length pre) c) = [x]" by simp
  have "read_name (file_source path c (length (pre @ [x]))) (acc @ [x]) x
        = Some ((acc @ [x]) @ nm @ [0], file_source path c (length (pre @ [x]) + length nm + 1))"
    using Cons.prems by (intro Cons.IH) simp_all
  then show ?case
    using r t file_source_neq [of path c "length pre"] Cons.prems(3)
    by (simp add: read_name.simps [of _ acc ch])
qed

lemma read_names_file_source:
  assumes "c = pre @ concat (map (\<lambda>n. n @ [0]) names) @ post"
    and "\<forall>n\<in>set names. 0 \<notin> set n"
  shows "read_names (length names) (file_source path c (length pre))
         = Some (map (\<lambda>n. n @ [0]) names,
                 file_source path c (length pre + length (concat (map (\<lambda>n. n @ [0]) names))))"
  using assms
proof (induction names arbitrary: pre)
  case Nil
  then show ?case by simp
next
  case (Cons n names)
  let ?rest = "concat (map (\<lambda>n. n @ [0]) names) @ post"
  have 1: "read_name (file_source path c (length pre)) [] CHAR_MAX
           = Some ([] @ n @ [0], file_source path c (length pre + length n + 1))"
    using Cons.prems by (intro read_name_file_source [where post = ?rest]) (simp_all add: CHAR_MAX_def)
  have 2: "read_names (length names) (file_source path c (length (pre @ n @ [0])))
           = Some (map (\<lambda>n. n @ [0]) names,
                   file_source path c (length (pre @ n @ [0]) + length (concat (map (\<lambda>n. n @ [0]) names))))"
    using Cons.prems by (intro Cons.IH) simp_all
  from 1 2 show ?case
    by (simp add: add.assoc)
qed

lemma read_sizes_file_source:
  assumes "c = pre @ concat (map u64_bytes sizes) @ post"
  shows "read_sizes (length sizes) (file_source path c (length pre))
         = Some (sizes, file_source path c (length pre + 8 * length sizes))"
  using assms
proof (induction sizes arbitrary: pre)
  case Nil
  then show ?case by simp
next
  case (Cons x sizes)
  have 1: "Input_Stream_read (file_source path c (length pre)) (u64_bytes 0) (of_nat 8)
           = Some (take 8 (drop (length pre) c), file_source path c (length pre + 8))"
    using Cons.prems by (intro read_file_source) (simp_all add: length_u64_bytes)
  have t: "take 8 (drop (length pre) c) = u64_bytes x"
    using Cons.prems by (simp add: length_u64_bytes)
  have 2: "read_sizes (length sizes) (file_source path c (length (pre @ u64_bytes x)))
           = Some (sizes, file_source path c (length (pre @ u64_bytes x) + 8 * length sizes))"
    using Cons.prems by (intro Cons.IH) simp_all
  from 1 2 t show ?case
    by (simp add: length_u64_bytes bytes_u64_u64_bytes add.assoc)
qed

lemma copy_bytes_file:
  assumes "k + n \<le> length c" and "n \<le> length r" and "length (w @ r) < 2 ^ 64"
  shows "copy_bytes n (file_source path c k) (fixed_sink (w @ r) (length w))
         = Some (file_source path c (k + n),
                 fixed_sink (w @ take n (drop k c) @ drop n r) (length w + n))"
  using assms
proof (induction n arbitrary: k w r)
  case 0
  then show ?case by simp
next
  case (Suc n)
  from Suc.prems obtain x r' where r: "r = x # r'"
    by (cases r) auto
  have 1: "Input_Stream_read (file_source path c k) [CHAR_MAX] (of_nat 1)
           = Some (take 1 (drop k c), file_source path c (k + 1))"
    using Suc.prems by (intro read_file_source) simp_all
  have t: "take 1 (drop k c) = [c ! k]"
    using Suc.prems by (simp add: take_Suc_conv_app_nth)
  have 2: "Output_Stream_write (fixed_sink (w @ x # r') (length w)) [c ! k] 1
           = Some (fixed_sink ((w @ [c ! k]) @ r') (length (w @ [c ! k])))"
    using Suc.prems r by (intro write_fixed_sink) simp
  have 3: "copy_bytes n (file_source path c (k + 1))
             (fixed_sink ((w @ [c ! k]) @ r') (length (w @ [c ! k])))
           = Some (file_source path c (k + 1 + n),
                   fixed_sink ((w @ [c ! k]) @ take n (drop (k + 1) c) @ drop n r')
                     (length (w @ [c ! k]) + n))"
    using Suc.prems r by (intro Suc.IH) simp_all
  have 4: "take (Suc n) (drop k c) = c ! k # take n (drop (k + 1) c)"
    using Suc.prems by (simp add: Cons_nth_drop_Suc [symmetric])
  show ?case
    using 1 t 2 3 by (simp add: r 4)
qed

lemma extract_files_file_source:
  assumes "c = pre @ files_section fs"
    and "\<forall>f\<in>set fs. of_nat (length (bytes f)) = size_f f \<and> length (bytes f) \<le> INT_MAX"
  shows "extract_files d True (file_source path c (length pre))
           (map (\<lambda>f. (name f @ [0], size_f f)) fs)
         = Some (debundled_from_file fs, [])"
  using assms
proof (induction fs arbitrary: pre)
  case Nil
  show ?case by (simp add: debundled_from_file_def)
next
  case (Cons f fs)
  let ?n = "length (bytes f)"
  from Cons.prems have sz: "size_f f = of_nat ?n" and le: "?n \<le> INT_MAX"
    by simp_all
  from le have u: "unat (of_nat ?n :: u64) = ?n" and b: "?n < 2 ^ 64"
    by (simp_all add: INT_MAX_def unat_of_nat64)
  have i: "extract_files d True (file_source path c (length (pre @ bytes f)))
             (map (\<lambda>f. (name f @ [0], size_f f)) fs) = Some (debundled_from_file fs, [])"
    using Cons.prems by (intro Cons.IH) (simp_all add: files_section_Cons)
  show ?case
  proof (cases "bytes f = []")
    case True
    with i sz show ?thesis
      by (simp add: INT_MAX_def extract_sink_empty memory_contents_default
            debundled_from_file_def)
  next
    case False
    then have pos: "0 < ?n" by simp
    have c: "copy_bytes ?n (file_source path c (length pre))
               (fixed_sink ([] @ replicate ?n 0) (length ([] :: byte list)))
             = Some (file_source path c (length pre + ?n),
                     fixed_sink ([] @ take ?n (drop (length pre) c)
                                   @ drop ?n (replicate ?n 0))
                       (length ([] :: byte list) + ?n))"
      using Cons.prems b
      by (intro copy_bytes_file) (simp_all add: files_section_Cons)
    have d: "take ?n (drop (length pre) c) = bytes f"
      using Cons.prems by (simp add: files_section_Cons)
    from c d i le u pos b False show ?thesis
      by (simp add: sz extract_sink_nonempty memory_contents_fixed_sink
            debundled_from_file_def)
  qed
qed

lemma debundle_file_layout:
  assumes on_disk: "d (c_str path) = Some (bundle_layout fs)"
    and cnt: "length fs \<le> INT_MAX"
    and files: "\<forall>f\<in>set fs. 0 \<notin> set (name f) \<and> of_nat (length (bytes f)) = size_f f
                  \<and> length (bytes f) \<le> INT_MAX"
  shows "debundle_disk_to_memory creatable d path
         = map_option (Pair (debundled_from_file fs))
             (directory_tree_effects creatable True [] (map (\<lambda>f. name f @ [0]) fs))"
proof -
  let ?c = "bundle_layout fs"
  let ?h = "metadata_bytes (accumulate_metadata fs)"
  let ?names = "map name fs"
  let ?sizes = "map size_f fs"
  have c: "?c = ?h @ names_section fs @ sizes_section fs @ files_section fs"
    by (simp add: bundle_layout_def)
  have 1: "Input_Stream_read (file_source path ?c 0) (metadata_bytes Header_Metadata_default)
             (of_nat 24)
           = Some (take 24 (drop 0 ?c), file_source path ?c (0 + 24))"
    by (intro read_file_source) (simp_all add: length_metadata_bytes c)
  have t: "take 24 (drop 0 ?c) = ?h"
    by (simp add: c length_metadata_bytes)
  have n: "unat (sizes_section_size (accumulate_metadata fs) div 8) = length fs"
    using cnt by (simp add: accumulate_metadata_sums number_of_bundled_files)
  have 2: "Input_Stream_seekg (file_source path ?c (0 + 24)) (of_nat 24) = file_source path ?c 24"
    by (intro file_source_seekg) simp
  have 3: "read_names (length ?names) (file_source path ?c (length ?h))
           = Some (map (\<lambda>n. n @ [0]) ?names,
                   file_source path ?c (length ?h + length (concat (map (\<lambda>n. n @ [0]) ?names))))"
    using files
    by (intro read_names_file_source [where post = "sizes_section fs @ files_section fs"])
       (simp_all add: c names_section_map)
  have 4: "read_sizes (length ?sizes) (file_source path ?c (length (?h @ names_section fs)))
           = Some (?sizes, file_source path ?c (length (?h @ names_section fs) + 8 * length ?sizes))"
    by (intro read_sizes_file_source [where post = "files_section fs"])
       (simp_all add: c sizes_section_map)
  have 5: "extract_files d True
             (file_source path ?c (length (?h @ names_section fs @ sizes_section fs)))
             (map (\<lambda>f. (name f @ [0], size_f f)) fs) = Some (debundled_from_file fs, [])"
    using files by (intro extract_files_file_source) (simp_all add: c)
  have F1: "Input_Stream_read (file_source path ?c 0) (metadata_bytes Header_Metadata_default) 24
            = Some (?h, file_source path ?c 24)"
    using 1 t by simp
  have F4: "Input_Stream_seekg (file_source path ?c 24) 24 = file_source path ?c 24"
    using 2 by simp
  have F5: "\<not> INT_MAX < length fs"
    using cnt by simp
  have F6: "read_names (length fs) (file_source path ?c 24)
            = Some (map (\<lambda>f. name f @ [0]) fs,
                    file_source path ?c (24 + length (names_section fs)))"
    using 3 by (simp add: length_metadata_bytes names_section_map comp_def)
  have F7: "read_sizes (length fs) (file_source path ?c (24 + length (names_section fs)))
            = Some (map size_f fs,
                    file_source path ?c (24 + length (names_section fs) + 8 * length fs))"
    using 4 by (simp add: length_metadata_bytes)
  have F8: "extract_files d True
              (file_source path ?c (24 + length (names_section fs) + 8 * length fs))
              (zip (map (\<lambda>f. name f @ [0]) fs) (map size_f fs))
            = Some (debundled_from_file fs, [])"
    using 5 zip_names_sizes [of fs]
    by (simp add: comp_def length_metadata_bytes length_sizes_section add.assoc)
  have F0: "open_file d Input_Stream_default path in_binary = file_source path ?c 0"
    using on_disk by (rule file_source_open)
  show ?thesis
    by (cases "directory_tree_effects creatable True [] (map (\<lambda>f. name f @ [0]) fs)")
       (simp_all add: debundle_disk_to_memory_def debundle_stream_def
          F0 F1 metadata_of_bytes_metadata_bytes n F4 F5 F6 F7 F8)
qed

section \<open>Bundling from the disk\<close>

text \<open>What opening the sink leaves of the disk.\<close>

lemma open_for_append_unchanged:
  "d (c_str n) = Some c \<Longrightarrow> open_for_append appendable d path (c_str n) = Some c"
  by (auto simp: open_for_append_def)

lemma open_for_append_other:
  "c_str n \<noteq> c_str path \<Longrightarrow> open_for_append appendable d path (c_str n) = d (c_str n)"
  by (simp add: open_for_append_def)

text \<open>The packer reads the disk at the listed names and nowhere else.\<close>

lemma files_of_names_agree:
  "\<forall>n\<in>set names. d1 (c_str n) = d2 (c_str n) \<Longrightarrow>
   files_of_names d1 names = files_of_names d2 names"
  by (induction names) (auto split: option.splits)

lemma files_of_names_names:
  "files_of_names d names = Some fs \<Longrightarrow> map name fs = names"
  by (induction names arbitrary: fs)
     (auto simp: File_descriptor_def split: option.splits Option.bind_splits)

lemma open_source_agree:
  "d1 (c_str n) = d2 (c_str n) \<Longrightarrow>
   open_file d1 Input_Stream_default n in_binary = open_file d2 Input_Stream_default n in_binary"
  by (simp add: open_file_def fstream_open_def)

lemma write_payloads_agree:
  "\<forall>f\<in>set fs. d1 (c_str (name f)) = d2 (c_str (name f)) \<Longrightarrow>
   write_payloads d1 p_from_memory s fs = write_payloads d2 p_from_memory s fs"
proof (induction fs arbitrary: s)
  case Nil
  show ?case by simp
next
  case (Cons f fs)
  from Cons.prems have o: "open_file d1 Input_Stream_default (name f) in_binary
                           = open_file d2 Input_Stream_default (name f) in_binary"
    by (intro open_source_agree) simp
  from Cons.prems have "\<And>s. write_payloads d1 p_from_memory s fs
                             = write_payloads d2 p_from_memory s fs"
    by (intro Cons.IH) simp
  with o show ?case
    by (cases p_from_memory) simp_all
qed

lemma bundle_stream_agree:
  assumes "\<forall>f\<in>set fs. d1 (c_str (name f)) = d2 (c_str (name f))"
  shows "bundle_stream d1 s fs p_from_memory = bundle_stream d2 s fs p_from_memory"
proof -
  have "\<And>s. write_payloads d1 p_from_memory s fs = write_payloads d2 p_from_memory s fs"
    using assms by (rule write_payloads_agree)
  then show ?thesis
    by (simp add: bundle_stream_def)
qed

text \<open>The sink's name has no part in what is copied from the disk.\<close>

lemma copy_bytes_renamed:
  "copy_bytes n src (s\<lparr>file_name := p\<rparr>)
   = map_option (\<lambda>(src', s'). (src', s'\<lparr>file_name := p\<rparr>)) (copy_bytes n src s)"
proof (induction n arbitrary: src s)
  case 0
  show ?case by simp
next
  case (Suc n)
  show ?case
  proof (cases "Input_Stream_read src [CHAR_MAX] 1")
    case None
    then show ?thesis by simp
  next
    case (Some r)
    obtain byte src' where r: "r = (byte, src')"
      by (cases r)
    show ?thesis
      by (cases "Output_Stream_write s byte 1")
         (simp_all add: Some r write_renamed Suc.IH)
  qed
qed

lemma write_payloads_renamed_from_disk:
  "write_payloads d False (s\<lparr>file_name := p\<rparr>) fs
   = map_option (\<lambda>s'. s'\<lparr>file_name := p\<rparr>) (write_payloads d False s fs)"
proof (induction fs arbitrary: s)
  case Nil
  show ?case by simp
next
  case (Cons f fs)
  show ?case
  proof (cases "copy_bytes (unat (size_f f))
                  (open_file d Input_Stream_default (name f) in_binary) s")
    case None
    then show ?thesis by (simp add: copy_bytes_renamed)
  next
    case (Some r)
    obtain src' s' where r: "r = (src', s')"
      by (cases r)
    show ?thesis
      by (simp add: Some r copy_bytes_renamed Cons.IH)
  qed
qed

lemma bundle_stream_renamed_from_disk:
  "bundle_stream d (s\<lparr>file_name := p\<rparr>) fs False
   = map_option (\<lambda>(package, s'). (package\<lparr>name := p\<rparr>, s'\<lparr>file_name := p\<rparr>))
       (bundle_stream d s fs False)"
proof -
  let ?h = "metadata_bytes (accumulate_metadata fs)"
  show ?thesis
  proof (cases "Output_Stream_write s ?h 24")
    case None
    then show ?thesis by (simp add: bundle_stream_def write_renamed)
  next
    case (Some s1)
    show ?thesis
    proof (cases "write_names s1 fs")
      case None
      with Some show ?thesis
        by (simp add: bundle_stream_def write_renamed write_names_renamed)
    next
      case n: (Some s2)
      show ?thesis
      proof (cases "write_sizes s2 fs")
        case None
        with Some n show ?thesis
          by (simp add: bundle_stream_def write_renamed write_names_renamed
                write_sizes_renamed)
      next
        case z: (Some s3)
        show ?thesis
        proof (cases "write_payloads d False s3 fs")
          case None
          with Some n z show ?thesis
            by (simp add: bundle_stream_def write_renamed write_names_renamed
                  write_sizes_renamed write_payloads_renamed_from_disk)
        next
          case w: (Some s4)
          with Some n z show ?thesis
            by (simp add: bundle_stream_def write_renamed write_names_renamed
                  write_sizes_renamed write_payloads_renamed_from_disk
                  File_descriptor_def get_file_name_def get_total_bytes_written_def)
        qed
      qed
    qed
  qed
qed

text \<open>What bundling a list of paths writes: the bundle of the files' contents.\<close>

lemma copy_bytes_file_growing_sink:
  assumes "k + n \<le> length c" and "length out + n < 2 ^ 64"
  shows "copy_bytes n (file_source path c k) (growing_sink target out)
         = Some (file_source path c (k + n), growing_sink target (out @ take n (drop k c)))"
  using assms
proof (induction n arbitrary: k out)
  case 0
  then show ?case by simp
next
  case (Suc n)
  have 1: "Input_Stream_read (file_source path c k) [CHAR_MAX] (of_nat 1)
           = Some (take 1 (drop k c), file_source path c (k + 1))"
    using Suc.prems by (intro read_file_source) simp_all
  have t: "take 1 (drop k c) = [c ! k]"
    using Suc.prems by (simp add: take_Suc_conv_app_nth)
  have 2: "Output_Stream_write (growing_sink target out) [c ! k] 1
           = Some (growing_sink target (out @ [c ! k]))"
    using write_growing_sink [of out "[c ! k]" target] Suc.prems by simp
  have 3: "copy_bytes n (file_source path c (k + 1)) (growing_sink target (out @ [c ! k]))
           = Some (file_source path c (k + 1 + n),
                   growing_sink target ((out @ [c ! k]) @ take n (drop (k + 1) c)))"
    using Suc.prems by (intro Suc.IH) simp_all
  have 4: "take (Suc n) (drop k c) = c ! k # take n (drop (k + 1) c)"
    using Suc.prems by (simp add: Cons_nth_drop_Suc [symmetric])
  show ?case
    using 1 t 2 3 by (simp add: 4)
qed

lemma files_of_names_entries:
  "\<forall>(n, c)\<in>set entries. d (c_str n) = Some c \<Longrightarrow>
   files_of_names d (map fst entries) = Some (listed_files entries)"
  by (induction entries) (auto simp: listed_files_def)

lemma write_payloads_from_disk:
  assumes "\<forall>(n, c)\<in>set entries. d (c_str n) = Some c \<and> length c \<le> INT_MAX"
    and "length out + length (concat (map snd entries)) < 2 ^ 64"
  shows "write_payloads d False (growing_sink target out) (listed_files entries)
         = Some (growing_sink target (out @ concat (map snd entries)))"
  using assms
proof (induction entries arbitrary: out)
  case Nil
  then show ?case by (simp add: listed_files_def)
next
  case (Cons e entries)
  obtain n c where e: "e = (n, c)"
    by (cases e)
  from Cons.prems e have on_disk: "d (c_str n) = Some c" and le: "length c \<le> INT_MAX"
    by simp_all
  from le have u: "unat (of_nat (length c) :: u64) = length c"
    by (simp add: INT_MAX_def unat_of_nat64)
  have o: "open_file d Input_Stream_default n in_binary = file_source n c 0"
    using on_disk by (rule file_source_open)
  have 1: "copy_bytes (length c) (file_source n c 0) (growing_sink target out)
           = Some (file_source n c (0 + length c),
                   growing_sink target (out @ take (length c) (drop 0 c)))"
    using Cons.prems e by (intro copy_bytes_file_growing_sink) simp_all
  have 2: "write_payloads d False (growing_sink target (out @ c)) (listed_files entries)
           = Some (growing_sink target ((out @ c) @ concat (map snd entries)))"
    using Cons.prems e by (intro Cons.IH) simp_all
  have l: "listed_files ((n, c) # entries)
           = File_descriptor n (of_nat (length c)) # listed_files entries"
    by (simp add: listed_files_def)
  from 1 2 le show ?case
    by (simp add: l File_descriptor_def u o e)
qed

lemma bundle_stream_from_disk:
  assumes "\<forall>(n, c)\<in>set entries. d (c_str n) = Some c \<and> length c \<le> INT_MAX"
    and "length (bundle_layout (in_memory_files entries)) < 2 ^ 64"
  shows "bundle_stream d (growing_sink target []) (listed_files entries) False
         = Some (File_descriptor (case target of None \<Rightarrow> [] | Some path \<Rightarrow> path)
                   (of_nat (length (bundle_layout (in_memory_files entries)))),
                 growing_sink target (bundle_layout (in_memory_files entries)))"
proof -
  let ?fs = "in_memory_files entries"
  let ?ls = "listed_files entries"
  let ?h = "metadata_bytes (accumulate_metadata ?fs)"
  have 1: "Output_Stream_write (growing_sink target []) ?h 24 = Some (growing_sink target ?h)"
    using write_growing_sink [of "[]" ?h target] by (simp add: length_metadata_bytes)
  have 2: "write_names (growing_sink target ?h) ?ls
           = Some (growing_sink target (?h @ names_section ?fs))"
    using assms(2) write_names_growing_sink [of ?h ?ls target]
    by (simp add: bundle_layout_def listed_files_sections)
  have 3: "write_sizes (growing_sink target (?h @ names_section ?fs)) ?ls
           = Some (growing_sink target (?h @ names_section ?fs @ sizes_section ?fs))"
    using assms(2) write_sizes_growing_sink [of "?h @ names_section ?fs" ?ls target]
    by (simp add: bundle_layout_def listed_files_sections)
  have 4: "write_payloads d False
             (growing_sink target (?h @ names_section ?fs @ sizes_section ?fs)) ?ls
           = Some (growing_sink target (bundle_layout ?fs))"
    using assms
      write_payloads_from_disk [of entries d "?h @ names_section ?fs @ sizes_section ?fs" target]
    by (simp add: bundle_layout_def files_section_in_memory_files)
  have "bundle_stream d (growing_sink target []) ?ls False
        = Some (File_descriptor (get_file_name (growing_sink target (bundle_layout ?fs)))
                  (get_total_bytes_written (growing_sink target (bundle_layout ?fs))),
                growing_sink target (bundle_layout ?fs))"
    by (simp add: bundle_stream_def listed_files_sections 1 2 3 4)
  then show ?thesis
    by (simp add: growing_sink_descriptor)
qed

lemma bundle_disk_to_memory_layout:
  assumes "\<forall>(n, c)\<in>set entries. d (c_str n) = Some c \<and> length c \<le> INT_MAX"
    and "length (bundle_layout (in_memory_files entries)) < 2 ^ 64"
  shows "bundle_disk_to_memory d (map fst entries)
         = Some \<lparr>name = [], size_f = of_nat (length (bundle_layout (in_memory_files entries))),
                 bytes = bundle_layout (in_memory_files entries)\<rparr>"
proof -
  from assms(1) have "\<forall>(n, c)\<in>set entries. d (c_str n) = Some c"
    by auto
  then have f: "files_of_names d (map fst entries) = Some (listed_files entries)"
    by (rule files_of_names_entries)
  show ?thesis
    using bundle_stream_from_disk [OF assms, of None]
    by (simp add: bundle_disk_to_memory_def f growing_sink_vector File_descriptor_def
          memory_contents_def growing_sink_def)
qed

lemma bundle_disk_to_disk_layout:
  assumes "\<forall>(n, c)\<in>set entries. d (c_str n) = Some c \<and> length c \<le> INT_MAX"
    and "length (bundle_layout (in_memory_files entries)) < 2 ^ 64"
  shows "bundle_disk_to_disk appendable d path (map fst entries)
         = Some (File_descriptor path (of_nat (length (bundle_layout (in_memory_files entries)))),
                 [append_file path (bundle_layout (in_memory_files entries))])"
proof -
  let ?d = "open_for_append appendable d path"
  from assms(1) have a: "\<forall>(n, c)\<in>set entries. ?d (c_str n) = Some c \<and> length c \<le> INT_MAX"
    by (auto simp: open_for_append_unchanged)
  then have "\<forall>(n, c)\<in>set entries. ?d (c_str n) = Some c"
    by auto
  then have f: "files_of_names ?d (map fst entries) = Some (listed_files entries)"
    by (rule files_of_names_entries)
  show ?thesis
    using bundle_stream_from_disk [OF a assms(2), of "Some path"]
    by (simp add: bundle_disk_to_disk_def f growing_sink_file growing_sink_def)
qed

section \<open>The read at the end of a memory source\<close>

text \<open>
  The source compares \<open>current_offset + p_size\<close>, a 64-bit sum, with \<open>memory_size\<close>.
  For a read whose end position is below \<open>2 ^ 64\<close> the sum is that end position.
\<close>

lemma end_position_without_overflow:
  "unat (current_offset s) + unat p_size < 2 ^ 64 \<Longrightarrow>
   (memory_size s \<le> current_offset s + p_size)
   = (unat (memory_size s) \<le> unat (current_offset s) + unat p_size)"
  by (simp add: word_le_nat_alt unat_word_ariths)

text \<open>
  C6. On a memory-backed byte source, a read whose end position reaches or exceeds
  the end of the backing memory is a no-op: the destination buffer is returned as it
  was (no byte is transferred), the stream is returned as it was (the read position
  is unchanged), and the call returns normally. The end position is
  \<open>current_offset + p_size\<close> as the source computes it, in unsigned 64-bit arithmetic.
\<close>

theorem read_reaching_end_is_noop:
  assumes "memory s = Some mem"
    and "memory_size s \<le> current_offset s + p_size"
  shows "Input_Stream_read s p_address p_size = Some (p_address, s)"
  using assms by (simp add: Input_Stream_read_def)

theorem read_reaching_end_is_noop_witness:
  "memory (open_memory Input_Stream_default (Some [1, 2, 3, 4]) 4) = Some [1, 2, 3, 4]
   \<and> memory_size (open_memory Input_Stream_default (Some [1, 2, 3, 4]) 4)
       \<le> current_offset (open_memory Input_Stream_default (Some [1, 2, 3, 4]) 4) + 4
   \<and> Input_Stream_read (open_memory Input_Stream_default (Some [1, 2, 3, 4]) 4) [9, 9, 9, 9] 4
       = Some ([9, 9, 9, 9], open_memory Input_Stream_default (Some [1, 2, 3, 4]) 4)"
proof -
  have m: "memory (open_memory Input_Stream_default (Some [1, 2, 3, 4]) 4) = Some [1, 2, 3, 4]"
    by (simp add: open_memory_def)
  have e: "memory_size (open_memory Input_Stream_default (Some [1, 2, 3, 4]) 4)
           \<le> current_offset (open_memory Input_Stream_default (Some [1, 2, 3, 4]) 4) + 4"
    by (simp add: open_memory_def Input_Stream_default_def)
  from m e read_reaching_end_is_noop [OF m e, of "[9, 9, 9, 9]"] show ?thesis
    by simp
qed

section \<open>The package-taking entry point\<close>

text \<open>
  C10. \<^verbatim>\<open>debundle(File&)\<close> dispatches on the package: with a payload buffer that is
  not empty it debundles from that memory, to memory; otherwise, with a name that is
  not empty, it debundles from the file of that name, to memory; with both empty it
  returns the empty list, whatever the disk holds and with no call to the file system.
\<close>

theorem debundle_package_dispatch:
  "debundle_package creatable d p_package =
     (if bytes p_package \<noteq> []
      then debundle_memory_to_memory creatable d (Some (bytes p_package))
             (of_nat (length (bytes p_package)))
      else if name p_package \<noteq> []
      then debundle_disk_to_memory creatable d (name p_package)
      else Some ([], []))"
  by (simp add: debundle_package_def vector_data_def)

section \<open>The zero-file bundle\<close>

text \<open>
  C7. Packing the empty list, to memory or to a file, gives a bundle of exactly 24
  bytes, the header, whose three size fields are zero, and 24 is the byte count
  reported; debundling that bundle, from memory or from a file, to memory or to
  disk, gives the empty list of files.
\<close>

theorem empty_bundle:
  "bundle_memory_to_memory d [] =
     Some \<lparr>name = [], size_f = 24, bytes = metadata_bytes Header_Metadata_default\<rparr>
   \<and> bundle_memory_to_disk d p_bundle_output_path [] =
       Some (File_descriptor p_bundle_output_path 24,
             [append_file p_bundle_output_path (metadata_bytes Header_Metadata_default)])
   \<and> length (metadata_bytes Header_Metadata_default) = 24
   \<and> metadata_of_bytes (metadata_bytes Header_Metadata_default) =
       \<lparr>names_section_size = 0, sizes_section_size = 0, files_section_size = 0\<rparr>
   \<and> debundle_package creatable d
        \<lparr>name = [], size_f = 24, bytes = metadata_bytes Header_Metadata_default\<rparr>
       = Some ([], [])
   \<and> debundle_package_to_disk creatable d
        \<lparr>name = [], size_f = 24, bytes = metadata_bytes Header_Metadata_default\<rparr>
        p_output_directory
       = Some ([], [])
   \<and> debundle_disk_to_memory creatable
        (d(c_str p_bundle_path \<mapsto> metadata_bytes Header_Metadata_default)) p_bundle_path
       = Some ([], [])
   \<and> debundle_disk_to_disk creatable
        (d(c_str p_bundle_path \<mapsto> metadata_bytes Header_Metadata_default)) p_bundle_path
        p_output_directory
       = Some ([], [])"
  by (simp add: bundle_eval debundle_eval)

section \<open>The round trip\<close>

lemma debundle_bundle_layout_any:
  assumes len: "length (bundle_layout fs) < 2 ^ 64"
    and cnt: "length fs \<le> INT_MAX"
    and files: "\<forall>f\<in>set fs. 0 \<notin> set (name f) \<and> of_nat (length (bytes f)) = size_f f
                  \<and> length (bytes f) \<le> INT_MAX"
  shows "debundle_memory_to_memory creatable d (Some (bundle_layout fs))
           (of_nat (length (bundle_layout fs)))
         = map_option (Pair (debundled_from_memory fs))
             (directory_tree_effects creatable True [] (map (\<lambda>f. name f @ [0]) fs))"
proof (cases "fs = []")
  case True
  then show ?thesis
    using debundle_empty_bundle [of creatable d] by simp
next
  case False
  then show ?thesis
    using len cnt files by (rule debundle_bundle_layout)
qed

lemma names_read_back:
  "map (\<lambda>f. name f @ [0]) (in_memory_files entries) = map (\<lambda>(n, p). n @ [0]) entries"
  by (simp add: in_memory_files_def File_from_vector_def case_prod_beta)

lemma name_debundled_from_file:
  "\<forall>f\<in>set fs. 0 \<notin> set (name f) \<Longrightarrow>
   map (c_str \<circ> name) (debundled_from_file fs) = map name fs"
  by (induction fs) (simp_all add: debundled_from_file_def c_str_terminated)

lemma fields_debundled_from_file:
  "map size_f (debundled_from_file fs) = map size_f fs"
  "map bytes (debundled_from_file fs) = map bytes fs"
  by (simp_all add: debundled_from_file_def comp_def)

text \<open>
  The directories asked for: none for names without a separator; and where one of
  them cannot be made, debundling to memory has no result.
\<close>

lemma last_separator_none:
  "\<forall>j. 1 \<le> j \<and> j \<le> i \<longrightarrow> file_name' ! j \<noteq> 47 \<and> file_name' ! j \<noteq> 92 \<Longrightarrow>
   last_separator file_name' i = None"
  by (induction i) simp_all

lemma original_path_of_plain:
  assumes "47 \<notin> set n" and "92 \<notin> set n"
  shows "original_path_of (n @ [0]) = []"
proof -
  let ?i = "of_nat (length (n @ [0])) - 1 :: 32 word"
  have "?i = of_nat (length n)"
    by simp
  then have i: "unat ?i \<le> length n"
    by (simp add: unat_of_nat)
  have "\<forall>j. 1 \<le> j \<and> j \<le> unat ?i \<longrightarrow> (n @ [0]) ! j \<noteq> 47 \<and> (n @ [0]) ! j \<noteq> 92"
  proof (intro allI impI)
    fix j
    assume "1 \<le> j \<and> j \<le> unat ?i"
    with i have "j < length (n @ [0])"
      by simp
    then have "(n @ [0]) ! j \<in> set (n @ [0])"
      by (rule nth_mem)
    with assms show "(n @ [0]) ! j \<noteq> 47 \<and> (n @ [0]) ! j \<noteq> 92"
      by auto
  qed
  then have "last_separator (n @ [0]) (unat ?i) = None"
    by (rule last_separator_none)
  then show ?thesis
    by (simp add: original_path_of_def Let_def)
qed

lemma requested_directories_plain:
  "\<forall>n\<in>set names. 47 \<notin> set n \<and> 92 \<notin> set n \<Longrightarrow>
   requested_directories p_output_directory (map (\<lambda>n. n @ [0]) names) = []"
  by (induction names) (simp_all add: requested_directories_def original_path_of_plain)

lemma debundle_where_directory_cannot_be_made:
  assumes "length entries \<le> INT_MAX"
    and "\<forall>(n, p)\<in>set entries. 0 \<notin> set n \<and> length p \<le> INT_MAX"
    and "24 + (\<Sum>(n, p)\<leftarrow>entries. length n + 1 + 8 + length p) < 2 ^ 64"
    and "path \<in> set (requested_directories [] (map (\<lambda>(n, p). n @ [0]) entries))"
    and "\<not> creatable path"
  shows "debundle_memory_to_memory creatable d
           (Some (bundle_layout (in_memory_files entries)))
           (of_nat (length (bundle_layout (in_memory_files entries)))) = None"
proof -
  let ?fs = "in_memory_files entries"
  have len: "length (bundle_layout ?fs) < 2 ^ 64"
    using assms(3) by (simp add: length_bundle_layout_in_memory_files)
  have cnt: "length ?fs \<le> INT_MAX"
    using assms(1) by (simp add: length_in_memory_files)
  have wf: "\<forall>f\<in>set ?fs. 0 \<notin> set (name f) \<and> of_nat (length (bytes f)) = size_f f
              \<and> length (bytes f) \<le> INT_MAX"
    using assms(2) by (rule in_memory_files_well_formed)
  have "directory_tree_effects creatable True [] (map (\<lambda>f. name f @ [0]) ?fs) = None"
    using assms(4,5) by (auto simp: directory_tree_effects_requested names_read_back)
  then show ?thesis
    using debundle_bundle_layout_any [OF len cnt wf, of creatable d] by simp
qed

text \<open>
  C1, as amended. Take a list of names and payloads, at most \<open>INT_MAX\<close> of them, no
  name containing a zero byte, no payload longer than \<open>INT_MAX\<close> bytes (the loop
  counters of the de-bundler are \<^verbatim>\<open>int\<close>s), whose bundle has fewer than \<open>2 ^ 64\<close>
  bytes. A run of the de-bundler to memory asks the file system for the directory
  \<^verbatim>\<open>"/" + parent\<close> of each name that has a parent (the test at the head of the directory
  loop is the wrong way round) and has no result when one of them cannot be made
  (lemma \<open>debundle_where_directory_cannot_be_made\<close>): suppose each of them can. For
  names without a separator nothing is asked for (lemma \<open>requested_directories_plain\<close>).

  Bundling the in-memory files of the list to memory returns a package, and
  debundling the package's buffer to memory returns as many files, in the same order,
  such that: each name, read up to its first zero byte, is the name bundled; each
  declared size is the length of the payload bundled; each payload has the length of
  the payload bundled; and the payloads, concatenated, are the payloads bundled,
  concatenated, up to the last byte.

  Bundling the same files to the file \<open>p_bundle_path\<close> writes the bundle, and
  debundling to memory, from a disk on which the file of that path holds the bytes
  written, returns as many files, in the same order, with the same names (read up to
  the first zero byte) and declared sizes, and each payload is the payload bundled,
  whole.
\<close>

theorem round_trip_through_memory:
  assumes "length entries \<le> INT_MAX"
    and "\<forall>(n, p)\<in>set entries. 0 \<notin> set n \<and> length p \<le> INT_MAX"
    and "24 + (\<Sum>(n, p)\<leftarrow>entries. length n + 1 + 8 + length p) < 2 ^ 64"
    and "\<forall>path\<in>set (requested_directories [] (map (\<lambda>(n, p). n @ [0]) entries)).
           creatable path"
  shows "(\<exists>package files effects.
            bundle_memory_to_memory d (in_memory_files entries) = Some package
            \<and> debundle_memory_to_memory creatable d (Some (bytes package))
                  (of_nat (length (bytes package))) = Some (files, effects)
            \<and> map (c_str \<circ> name) files = map fst entries
            \<and> map size_f files = map (of_nat \<circ> length \<circ> snd) entries
            \<and> map (length \<circ> bytes) files = map (length \<circ> snd) entries
            \<and> butlast (concat (map bytes files)) = butlast (concat (map snd entries)))
         \<and> (\<exists>package b files effects.
               bundle_memory_to_disk d p_bundle_path (in_memory_files entries)
                 = Some (package, [append_file p_bundle_path b])
               \<and> debundle_disk_to_memory creatable (d(c_str p_bundle_path \<mapsto> b)) p_bundle_path
                   = Some (files, effects)
               \<and> map (c_str \<circ> name) files = map fst entries
               \<and> map size_f files = map (of_nat \<circ> length \<circ> snd) entries
               \<and> map bytes files = map snd entries)"
proof
  let ?fs = "in_memory_files entries"
  let ?b = "bundle_layout ?fs"
  let ?dirs = "map create_directories
                 (requested_directories [] (map (\<lambda>(n, p). n @ [0]) entries))"
  have len: "length ?b < 2 ^ 64"
    using assms(3) by (simp add: length_bundle_layout_in_memory_files)
  have cnt: "length ?fs \<le> INT_MAX"
    using assms(1) by (simp add: length_in_memory_files)
  have wf: "\<forall>f\<in>set ?fs. 0 \<notin> set (name f) \<and> of_nat (length (bytes f)) = size_f f
              \<and> length (bytes f) \<le> INT_MAX"
    using assms(2) by (rule in_memory_files_well_formed)
  have dirs: "directory_tree_effects creatable True [] (map (\<lambda>f. name f @ [0]) ?fs)
              = Some ?dirs"
    using assms(4) by (simp add: directory_tree_effects_requested names_read_back)
  have 1: "bundle_memory_to_memory d ?fs
           = Some \<lparr>name = [], size_f = of_nat (length ?b), bytes = ?b\<rparr>"
    using len by (rule bundle_memory_to_memory_layout)
  have 2: "debundle_memory_to_memory creatable d (Some ?b) (of_nat (length ?b))
           = Some (debundled_from_memory ?fs, ?dirs)"
    using debundle_bundle_layout_any [OF len cnt wf, of creatable d] by (simp add: dirs)
  have 3: "map (c_str \<circ> name) (debundled_from_memory ?fs) = map fst entries"
    using wf by (simp add: name_debundled_from_memory in_memory_files_fields)
  have 4: "map size_f (debundled_from_memory ?fs) = map (of_nat \<circ> length \<circ> snd) entries"
    by (simp add: size_debundled_from_memory in_memory_files_fields)
  have "map (length \<circ> bytes) ?fs = map length (map bytes ?fs)"
    by simp
  then have 5: "map (length \<circ> bytes) (debundled_from_memory ?fs) = map (length \<circ> snd) entries"
    by (simp only: payload_length_debundled_from_memory in_memory_files_fields) simp
  have fsec: "files_section ?fs = concat (map snd entries)"
    by (rule files_section_in_memory_files)
  have 6: "butlast (concat (map bytes (debundled_from_memory ?fs)))
           = butlast (concat (map snd entries))"
  proof (cases "files_section ?fs = []")
    case True
    with fsec have c: "concat (map snd entries) = []"
      by simp
    show ?thesis
      unfolding c payload_debundled_from_memory True by simp
  next
    case False
    then have "butlast (concat (map bytes (debundled_from_memory ?fs)))
               = butlast (files_section ?fs)"
      by (simp add: payload_debundled_from_memory)
    then show ?thesis
      by (simp only: fsec)
  qed
  from 1 2 3 4 5 6
  show "\<exists>package files effects.
            bundle_memory_to_memory d (in_memory_files entries) = Some package
            \<and> debundle_memory_to_memory creatable d (Some (bytes package))
                  (of_nat (length (bytes package))) = Some (files, effects)
            \<and> map (c_str \<circ> name) files = map fst entries
            \<and> map size_f files = map (of_nat \<circ> length \<circ> snd) entries
            \<and> map (length \<circ> bytes) files = map (length \<circ> snd) entries
            \<and> butlast (concat (map bytes files)) = butlast (concat (map snd entries))"
    by simp
  have 7: "bundle_memory_to_disk d p_bundle_path ?fs
           = Some (File_descriptor p_bundle_path (of_nat (length ?b)),
                   [append_file p_bundle_path ?b])"
    using len by (rule bundle_memory_to_disk_layout)
  have on_disk: "(d(c_str p_bundle_path \<mapsto> ?b)) (c_str p_bundle_path) = Some ?b"
    by simp
  have 8: "debundle_disk_to_memory creatable (d(c_str p_bundle_path \<mapsto> ?b)) p_bundle_path
           = Some (debundled_from_file ?fs, ?dirs)"
    using debundle_file_layout
      [of "d(c_str p_bundle_path \<mapsto> ?b)" p_bundle_path ?fs creatable, OF on_disk cnt wf]
    by (simp add: dirs)
  have 9: "map (c_str \<circ> name) (debundled_from_file ?fs) = map fst entries"
    using wf by (simp add: name_debundled_from_file in_memory_files_fields)
  have 10: "map size_f (debundled_from_file ?fs) = map (of_nat \<circ> length \<circ> snd) entries"
    by (simp add: fields_debundled_from_file in_memory_files_fields)
  have 11: "map bytes (debundled_from_file ?fs) = map snd entries"
    by (simp add: fields_debundled_from_file in_memory_files_fields)
  from 7 8 9 10 11
  show "\<exists>package b files effects.
               bundle_memory_to_disk d p_bundle_path (in_memory_files entries)
                 = Some (package, [append_file p_bundle_path b])
               \<and> debundle_disk_to_memory creatable (d(c_str p_bundle_path \<mapsto> b)) p_bundle_path
                   = Some (files, effects)
               \<and> map (c_str \<circ> name) files = map fst entries
               \<and> map size_f files = map (of_nat \<circ> length \<circ> snd) entries
               \<and> map bytes files = map snd entries"
    by simp
qed

theorem round_trip_through_memory_witness:
  "\<forall>d. (\<exists>package files effects.
          bundle_memory_to_memory d
            (in_memory_files [(str ''a/b.txt'', str ''hello''), (str ''c'', [])]) = Some package
          \<and> debundle_memory_to_memory (\<lambda>path. path = str ''/a'') d (Some (bytes package))
                (of_nat (length (bytes package))) = Some (files, effects)
          \<and> map (c_str \<circ> name) files = [str ''a/b.txt'', str ''c'']
          \<and> map size_f files = [5, 0]
          \<and> map (length \<circ> bytes) files = map length [str ''hello'', []]
          \<and> butlast (concat (map bytes files)) = str ''hell'')
       \<and> (\<exists>package b files effects.
             bundle_memory_to_disk d (str ''b.bin'')
               (in_memory_files [(str ''a/b.txt'', str ''hello''), (str ''c'', [])])
               = Some (package, [append_file (str ''b.bin'') b])
             \<and> debundle_disk_to_memory (\<lambda>path. path = str ''/a'')
                   (d(c_str (str ''b.bin'') \<mapsto> b)) (str ''b.bin'')
                 = Some (files, effects)
             \<and> map (c_str \<circ> name) files = [str ''a/b.txt'', str ''c'']
             \<and> map size_f files = [5, 0]
             \<and> map bytes files = [str ''hello'', []])"
proof
  fix d :: disk
  let ?entries = "[(str ''a/b.txt'', str ''hello''), (str ''c'', [])]"
  have a: "length ?entries \<le> INT_MAX"
    by (simp add: INT_MAX_def)
  have b: "\<forall>(n, p)\<in>set ?entries. 0 \<notin> set n \<and> length p \<le> INT_MAX"
    by (simp add: INT_MAX_def str_def)
  have c: "24 + (\<Sum>(n, p)\<leftarrow>?entries. length n + 1 + 8 + length p) < 2 ^ 64"
    by (simp add: str_def)
  have e: "\<forall>path\<in>set (requested_directories [] (map (\<lambda>(n, p). n @ [0]) ?entries)).
             path = str ''/a''"
    by (simp add: requested_directories_def original_path_of_def last_separator_numeral
          str_def Let_def)
  from round_trip_through_memory [OF a b c, of "\<lambda>path. path = str ''/a''", OF e,
      of d "str ''b.bin''"]
  show "(\<exists>package files effects.
          bundle_memory_to_memory d (in_memory_files ?entries) = Some package
          \<and> debundle_memory_to_memory (\<lambda>path. path = str ''/a'') d (Some (bytes package))
                (of_nat (length (bytes package))) = Some (files, effects)
          \<and> map (c_str \<circ> name) files = [str ''a/b.txt'', str ''c'']
          \<and> map size_f files = [5, 0]
          \<and> map (length \<circ> bytes) files = map length [str ''hello'', []]
          \<and> butlast (concat (map bytes files)) = str ''hell'')
       \<and> (\<exists>package b files effects.
             bundle_memory_to_disk d (str ''b.bin'') (in_memory_files ?entries)
               = Some (package, [append_file (str ''b.bin'') b])
             \<and> debundle_disk_to_memory (\<lambda>path. path = str ''/a'')
                   (d(c_str (str ''b.bin'') \<mapsto> b)) (str ''b.bin'')
                 = Some (files, effects)
             \<and> map (c_str \<circ> name) files = [str ''a/b.txt'', str ''c'']
             \<and> map size_f files = [5, 0]
             \<and> map bytes files = [str ''hello'', []])"
    by (simp add: str_def)
qed

lemma round_trip_payload_too_long:
  assumes "0 \<notin> set n" and "INT_MAX < length p" and "length n + length p + 33 < 2 ^ 64"
  shows "\<not> round_trip creatable d (in_memory_files [(n, p)])"
proof -
  have len: "length (bundle_layout [File_from_vector n p]) < 2 ^ 64"
    using assms(3) by (simp add: length_bundle_layout File_from_vector_def)
  show ?thesis
    using bundle_memory_to_memory_layout [OF len, of d]
      debundle_payload_too_long [OF assms(1,2) len, of creatable d]
    by (simp add: round_trip_def in_memory_files_def)
qed

text \<open>
  The round trip as the specification states it fails on the file \<^verbatim>\<open>("x.txt", "hi")\<close>:
  the name comes back with its terminator and the payload as \<^verbatim>\<open>"h\x7f"\<close>. It fails by
  the format itself on the name \<^verbatim>\<open>"a\0\3"\<close>, which the de-bundler ends at its first
  zero byte. It fails on a payload of \<open>2 ^ 31 + 1\<close> bytes, where the \<^verbatim>\<open>int\<close> counter
  of the copy loop overflows. And on the name \<^verbatim>\<open>"a/b.txt"\<close> the bundle is produced and
  debundling it to memory has no result where the directory \<^verbatim>\<open>"/a"\<close> cannot be made.
\<close>

theorem round_trip_counterexample:
  "\<forall>creatable d.
     \<not> round_trip creatable d (in_memory_files [(str ''x.txt'', str ''hi'')])
     \<and> \<not> round_trip creatable d (in_memory_files [([97, 0, 3], [])])
     \<and> \<not> round_trip creatable d (in_memory_files [(str ''big'', replicate 2147483649 0)])
     \<and> (\<exists>package.
           bundle_memory_to_memory d (in_memory_files [(str ''a/b.txt'', str ''hello'')])
             = Some package
           \<and> debundle_memory_to_memory (\<lambda>path. False) d (Some (bytes package))
                 (of_nat (length (bytes package))) = None)"
proof (intro allI conjI)
  fix creatable :: "cstring \<Rightarrow> bool" and d :: disk
  show "\<not> round_trip creatable d (in_memory_files [(str ''x.txt'', str ''hi'')])"
    by (simp add: round_trip_def in_memory_files_def bundle_eval debundle_eval)
  show "\<not> round_trip creatable d (in_memory_files [([97, 0, 3], [])])"
    by (simp add: round_trip_def in_memory_files_def bundle_eval debundle_eval)
  have n: "0 \<notin> set (str ''big'')"
    by (simp add: str_def)
  have l: "INT_MAX < length (replicate 2147483649 (0 :: byte))"
    by (simp only: length_replicate INT_MAX_def)
  have s: "length (str ''big'') + length (replicate 2147483649 (0 :: byte)) + 33 < 2 ^ 64"
    by (simp only: length_replicate) (simp add: str_def)
  from n l s
  show "\<not> round_trip creatable d (in_memory_files [(str ''big'', replicate 2147483649 0)])"
    by (rule round_trip_payload_too_long)
  show "\<exists>package.
           bundle_memory_to_memory d (in_memory_files [(str ''a/b.txt'', str ''hello'')])
             = Some package
           \<and> debundle_memory_to_memory (\<lambda>path. False) d (Some (bytes package))
                 (of_nat (length (bytes package))) = None"
    by (simp add: in_memory_files_def bundle_eval debundle_eval)
qed

section \<open>The worked example\<close>

text \<open>
  C2, as amended. Packing the single in-memory file \<^verbatim>\<open>("x.txt", "hi")\<close> produces
  exactly the 40 bytes \<^verbatim>\<open>[6,0,0,0,0,0,0,0][8,0,0,0,0,0,0,0][2,0,0,0,0,0,0,0]\<close>, then
  \<^verbatim>\<open>"x.txt\0"\<close>, then the little-endian 64-bit 2, then \<^verbatim>\<open>"hi"\<close>: the first field of the
  header is the size of the names section, 6. Debundling that bundle to memory yields
  exactly one file, of declared size 2, whose name read up to its first zero byte is
  \<^verbatim>\<open>"x.txt"\<close> and whose content is two bytes, the first of them \<^verbatim>\<open>"h"\<close>.
\<close>

theorem example_bundle:
  "bundle_memory_to_memory d [File_from_vector (str ''x.txt'') (str ''hi'')] =
     Some \<lparr>name = [], size_f = 40,
            bytes = [6, 0, 0, 0, 0, 0, 0, 0] @ [8, 0, 0, 0, 0, 0, 0, 0] @ [2, 0, 0, 0, 0, 0, 0, 0]
                      @ str ''x.txt'' @ [0] @ [2, 0, 0, 0, 0, 0, 0, 0] @ str ''hi''\<rparr>
   \<and> (\<exists>f. debundle_memory_to_memory creatable d
              (Some ([6, 0, 0, 0, 0, 0, 0, 0] @ [8, 0, 0, 0, 0, 0, 0, 0] @ [2, 0, 0, 0, 0, 0, 0, 0]
                       @ str ''x.txt'' @ [0] @ [2, 0, 0, 0, 0, 0, 0, 0] @ str ''hi'')) 40
            = Some ([f], [])
          \<and> c_str (name f) = str ''x.txt'' \<and> size_f f = 2 \<and> length (bytes f) = 2
          \<and> take 1 (bytes f) = str ''h'')"
proof
  show "bundle_memory_to_memory d [File_from_vector (str ''x.txt'') (str ''hi'')] =
     Some \<lparr>name = [], size_f = 40,
            bytes = [6, 0, 0, 0, 0, 0, 0, 0] @ [8, 0, 0, 0, 0, 0, 0, 0] @ [2, 0, 0, 0, 0, 0, 0, 0]
                      @ str ''x.txt'' @ [0] @ [2, 0, 0, 0, 0, 0, 0, 0] @ str ''hi''\<rparr>"
    by (simp add: bundle_eval)
next
  have "debundle_memory_to_memory creatable d
          (Some ([6, 0, 0, 0, 0, 0, 0, 0] @ [8, 0, 0, 0, 0, 0, 0, 0] @ [2, 0, 0, 0, 0, 0, 0, 0]
                   @ str ''x.txt'' @ [0] @ [2, 0, 0, 0, 0, 0, 0, 0] @ str ''hi'')) 40
        = Some ([\<lparr>name = str ''x.txt'' @ [0], size_f = 2, bytes = [104, CHAR_MAX]\<rparr>], [])"
    by (simp add: bundle_eval debundle_eval)
  moreover have "c_str (name \<lparr>name = str ''x.txt'' @ [0], size_f = 2, bytes = [104, CHAR_MAX]\<rparr>)
                 = str ''x.txt''"
    by (simp add: c_str_def str_def)
  ultimately show "\<exists>f. debundle_memory_to_memory creatable d
              (Some ([6, 0, 0, 0, 0, 0, 0, 0] @ [8, 0, 0, 0, 0, 0, 0, 0] @ [2, 0, 0, 0, 0, 0, 0, 0]
                       @ str ''x.txt'' @ [0] @ [2, 0, 0, 0, 0, 0, 0, 0] @ str ''hi'')) 40
            = Some ([f], [])
          \<and> c_str (name f) = str ''x.txt'' \<and> size_f f = 2 \<and> length (bytes f) = 2
          \<and> take 1 (bytes f) = str ''h''"
    by (simp add: str_def)
qed

text \<open>
  The example as the specification states it fails twice: the bundle does not start
  with the bytes of a 2, and the file debundled (from the bytes stated or from the
  bytes produced) is not the file named \<^verbatim>\<open>"x.txt"\<close> with content \<^verbatim>\<open>"hi"\<close>.
\<close>

theorem example_bundle_counterexample:
  "\<forall>creatable d.
     map_option bytes
          (bundle_memory_to_memory d [File_from_vector (str ''x.txt'') (str ''hi'')])
        \<noteq> Some ([2, 0, 0, 0, 0, 0, 0, 0] @ [8, 0, 0, 0, 0, 0, 0, 0] @ [2, 0, 0, 0, 0, 0, 0, 0]
                   @ str ''x.txt'' @ [0] @ [2, 0, 0, 0, 0, 0, 0, 0] @ str ''hi'')
     \<and> map_option fst
          (debundle_memory_to_memory creatable d
             (Some ([2, 0, 0, 0, 0, 0, 0, 0] @ [8, 0, 0, 0, 0, 0, 0, 0] @ [2, 0, 0, 0, 0, 0, 0, 0]
                      @ str ''x.txt'' @ [0] @ [2, 0, 0, 0, 0, 0, 0, 0] @ str ''hi'')) 40)
        \<noteq> Some [File_from_vector (str ''x.txt'') (str ''hi'')]
     \<and> map_option fst
          (debundle_memory_to_memory creatable d
             (Some ([6, 0, 0, 0, 0, 0, 0, 0] @ [8, 0, 0, 0, 0, 0, 0, 0] @ [2, 0, 0, 0, 0, 0, 0, 0]
                      @ str ''x.txt'' @ [0] @ [2, 0, 0, 0, 0, 0, 0, 0] @ str ''hi'')) 40)
        \<noteq> Some [File_from_vector (str ''x.txt'') (str ''hi'')]"
  by (simp add: bundle_eval debundle_eval)

section \<open>Debundling to disk\<close>

text \<open>
  C4. The bundle of the file \<^verbatim>\<open>("a/b/c.txt", "hi")\<close>, debundled to disk under \<^verbatim>\<open>"out"\<close>:
  the only call to the file system is the opening and writing of the file; no
  directory is created. Debundled to memory, the same bundle asks for the directory
  \<^verbatim>\<open>"/a/b"\<close>, and has no result when that cannot be made: the test at the head of
  the directory loop is the wrong way round.
\<close>

theorem directory_tree_on_disk_evaluated:
  "Option.bind (bundle_memory_to_memory d [File_from_vector (str ''a/b/c.txt'') (str ''hi'')])
     (\<lambda>package. debundle_package_to_disk creatable d package (str ''out''))
   = Some ([\<lparr>name = str ''a/b/c.txt'' @ [0], size_f = 2, bytes = []\<rparr>],
           [append_file (str ''a/b/c.txt'' @ [0]) [104, CHAR_MAX]])
   \<and> Option.bind (bundle_memory_to_memory d [File_from_vector (str ''a/b/c.txt'') (str ''hi'')])
       (\<lambda>package. debundle_package creatable d package)
     = (if creatable (str ''/a/b'')
        then Some ([\<lparr>name = str ''a/b/c.txt'' @ [0], size_f = 2, bytes = [104, CHAR_MAX]\<rparr>],
                   [create_directories (str ''/a/b'')])
        else None)"
  by (simp add: bundle_eval debundle_eval)

text \<open>
  C5. A bundle file \<^verbatim>\<open>"b.bin"\<close> holding the files \<^verbatim>\<open>("x.txt", "hi")\<close> and \<^verbatim>\<open>("y", "")\<close>,
  debundled to disk under \<^verbatim>\<open>"out"\<close>: each destination is opened for appending on the
  bundled name as it was read (with its terminator), not on a path under \<^verbatim>\<open>"out"\<close>,
  and receives as many bytes as the declared size.
\<close>

theorem destination_path_on_disk_evaluated:
  "debundle_disk_to_disk creatable
     ((\<lambda>path. None)
        (str ''b.bin'' :=
           Some (metadata_bytes
                   \<lparr>names_section_size = 8, sizes_section_size = 16, files_section_size = 2\<rparr>
                 @ str ''x.txt'' @ [0] @ str ''y'' @ [0] @ u64_bytes 2 @ u64_bytes 0
                 @ str ''hi'')))
     (str ''b.bin'') (str ''out'')
   = Some ([\<lparr>name = str ''x.txt'' @ [0], size_f = 2, bytes = []\<rparr>,
            \<lparr>name = str ''y'' @ [0], size_f = 0, bytes = []\<rparr>],
           [append_file (str ''x.txt'' @ [0]) (str ''hi''),
            append_file (str ''y'' @ [0]) []])"
  by (simp add: bundle_eval debundle_eval)

section \<open>The header and the byte count\<close>

lemma names_section_size_sum:
  "(of_nat (length (names_section fs)) :: u64) = (\<Sum>f\<leftarrow>fs. of_nat (length (name f)) + 1)"
  by (induction fs) (simp_all add: names_section_def)

lemma sizes_section_size_sum: "(of_nat (length (sizes_section fs)) :: u64) = 8 * of_nat (length fs)"
  by (simp add: length_sizes_section)

lemma files_section_size_sum:
  "\<forall>f\<in>set fs. of_nat (length (bytes f)) = size_f f \<Longrightarrow>
   (of_nat (length (files_section fs)) :: u64) = (\<Sum>f\<leftarrow>fs. size_f f)"
  by (induction fs) (simp_all add: files_section_def)

lemma header_of_bundle_layout:
  "metadata_of_bytes (take 24 (bundle_layout fs)) = accumulate_metadata fs"
  by (simp add: bundle_layout_def length_metadata_bytes metadata_of_bytes_metadata_bytes)

text \<open>
  C3, as amended. Take a list of in-memory files each of whose payload buffers has
  the declared size, and whose bundle has fewer than \<open>2 ^ 64\<close> bytes. Packing it
  returns a package; the header at offset 0 of the bytes written holds the sum of
  \<open>len(name) + 1\<close>, 8 times the number of files and the sum of the declared sizes;
  the byte count reported is 24 plus the three; and the number of bytes written is
  that count. Packing to a file writes the same bytes and reports the same count.
\<close>

theorem header_arithmetic:
  assumes "\<forall>f\<in>set fs. of_nat (length (bytes f)) = size_f f"
    and "24 + (\<Sum>f\<leftarrow>fs. length (name f) + 1 + 8 + length (bytes f)) < 2 ^ 64"
  shows "\<exists>package m.
           bundle_memory_to_memory d fs = Some package
           \<and> m = metadata_of_bytes (take 24 (bytes package))
           \<and> names_section_size m = (\<Sum>f\<leftarrow>fs. of_nat (length (name f)) + 1)
           \<and> sizes_section_size m = 8 * of_nat (length fs)
           \<and> files_section_size m = (\<Sum>f\<leftarrow>fs. size_f f)
           \<and> size_f package
               = 24 + names_section_size m + sizes_section_size m + files_section_size m
           \<and> length (bytes package)
               = 24 + unat (names_section_size m) + unat (sizes_section_size m)
                 + unat (files_section_size m)
           \<and> bundle_memory_to_disk d path fs
               = Some (File_descriptor path (size_f package), [append_file path (bytes package)])"
proof -
  let ?b = "bundle_layout fs"
  let ?m = "accumulate_metadata fs"
  have len: "length ?b < 2 ^ 64"
    using assms(2) by (simp add: length_bundle_layout)
  have parts: "length ?b = 24 + length (names_section fs) + length (sizes_section fs)
                 + length (files_section fs)"
    by (simp add: bundle_layout_def length_metadata_bytes)
  have n: "names_section_size ?m = of_nat (length (names_section fs))"
    and s: "sizes_section_size ?m = of_nat (length (sizes_section fs))"
    and f: "files_section_size ?m = of_nat (length (files_section fs))"
    using assms(1)
    by (simp_all add: accumulate_metadata_sums names_section_size_sum sizes_section_size_sum
          files_section_size_sum)
  have un: "unat (names_section_size ?m) = length (names_section fs)"
    and us: "unat (sizes_section_size ?m) = length (sizes_section fs)"
    and uf: "unat (files_section_size ?m) = length (files_section fs)"
    using len parts by (simp_all add: n s f unat_of_nat64)
  have total: "(of_nat (length ?b) :: u64)
               = 24 + names_section_size ?m + sizes_section_size ?m + files_section_size ?m"
    by (simp add: parts n s f)
  have 1: "bundle_memory_to_memory d fs
           = Some \<lparr>name = [], size_f = of_nat (length ?b), bytes = ?b\<rparr>"
    using len by (rule bundle_memory_to_memory_layout)
  have 2: "bundle_memory_to_disk d path fs
           = Some (File_descriptor path (of_nat (length ?b)), [append_file path ?b])"
    using len by (rule bundle_memory_to_disk_layout)
  have 3: "names_section_size ?m = (\<Sum>f\<leftarrow>fs. of_nat (length (name f)) + 1)"
    "sizes_section_size ?m = 8 * of_nat (length fs)"
    "files_section_size ?m = (\<Sum>f\<leftarrow>fs. size_f f)"
    by (simp_all add: accumulate_metadata_sums)
  show ?thesis
    using 1 2 3 total parts un us uf
    by (simp add: header_of_bundle_layout)
qed

theorem header_arithmetic_witness:
  "\<forall>d path. \<exists>package m.
     bundle_memory_to_memory d
       [File_from_vector (str ''x.txt'') (str ''hi''), File_from_vector (str ''y'') []]
       = Some package
     \<and> m = metadata_of_bytes (take 24 (bytes package))
     \<and> names_section_size m = 8
     \<and> sizes_section_size m = 16
     \<and> files_section_size m = 2
     \<and> size_f package
         = 24 + names_section_size m + sizes_section_size m + files_section_size m
     \<and> length (bytes package)
         = 24 + unat (names_section_size m) + unat (sizes_section_size m)
           + unat (files_section_size m)
     \<and> bundle_memory_to_disk d path
          [File_from_vector (str ''x.txt'') (str ''hi''), File_from_vector (str ''y'') []]
         = Some (File_descriptor path (size_f package), [append_file path (bytes package)])"
proof (intro allI)
  fix d :: disk and path :: cstring
  let ?fs = "[File_from_vector (str ''x.txt'') (str ''hi''), File_from_vector (str ''y'') []]"
  have a: "\<forall>f\<in>set ?fs. of_nat (length (bytes f)) = size_f f"
    by (simp add: File_from_vector_def)
  have b: "24 + (\<Sum>f\<leftarrow>?fs. length (name f) + 1 + 8 + length (bytes f)) < 2 ^ 64"
    by (simp add: File_from_vector_def str_def)
  from header_arithmetic [OF a b, of d path]
  show "\<exists>package m.
     bundle_memory_to_memory d ?fs = Some package
     \<and> m = metadata_of_bytes (take 24 (bytes package))
     \<and> names_section_size m = 8
     \<and> sizes_section_size m = 16
     \<and> files_section_size m = 2
     \<and> size_f package
         = 24 + names_section_size m + sizes_section_size m + files_section_size m
     \<and> length (bytes package)
         = 24 + unat (names_section_size m) + unat (sizes_section_size m)
           + unat (files_section_size m)
     \<and> bundle_memory_to_disk d path ?fs
         = Some (File_descriptor path (size_f package), [append_file path (bytes package)])"
    by (simp add: File_from_vector_def str_def)
qed

text \<open>
  The claim fails for an in-memory file whose declared size is not the size of its
  buffer: \<^verbatim>\<open>("x", "hi")\<close> after \<^verbatim>\<open>set_size(5)\<close>. The header holds 2, 8 and 5, and the
  bytes written and reported are 36, not 39.
\<close>

theorem header_arithmetic_counterexample:
  "\<forall>d. \<exists>package m.
     bundle_memory_to_memory d [set_size (File_from_vector (str ''x'') (str ''hi'')) 5]
       = Some package
     \<and> m = metadata_of_bytes (take 24 (bytes package))
     \<and> names_section_size m = 2 \<and> sizes_section_size m = 8 \<and> files_section_size m = 5
     \<and> size_f package = 36
     \<and> length (bytes package) = 36
     \<and> size_f package
         \<noteq> 24 + names_section_size m + sizes_section_size m + files_section_size m"
  by (simp add: bundle_eval set_size_def metadata_of_bytes_def)

section \<open>Two runs of the packer\<close>

lemma bundle_disk_to_disk_renamed:
  assumes agree: "\<forall>n\<in>set names. d1 (c_str n) = d2 (c_str n)
                    \<and> c_str n \<noteq> c_str path1 \<and> c_str n \<noteq> c_str path2"
    and run: "bundle_disk_to_disk appendable1 d1 path1 names
              = Some (package, [append_file path1 b])"
  shows "bundle_disk_to_disk appendable2 d2 path2 names
         = Some (package\<lparr>name := path2\<rparr>, [append_file path2 b])"
proof -
  let ?d1 = "open_for_append appendable1 d1 path1"
  let ?d2 = "open_for_append appendable2 d2 path2"
  let ?s1 = "open_file ?d1 Output_Stream_default path1 out_binary_app"
  from agree have a: "\<forall>n\<in>set names. ?d1 (c_str n) = ?d2 (c_str n)"
    by (simp add: open_for_append_other)
  from run obtain fs s where f: "files_of_names ?d1 names = Some fs"
    and s: "bundle_stream ?d1 ?s1 fs False = Some (package, s)"
    and b: "b = put_bytes (file_stream s)"
    by (auto simp: bundle_disk_to_disk_def Let_def split: Option.bind_splits)
  from a f have f2: "files_of_names ?d2 names = Some fs"
    by (simp add: files_of_names_agree [of names ?d1 ?d2])
  from f have "map name fs = names"
    by (rule files_of_names_names)
  with a have a': "\<forall>f\<in>set fs. ?d1 (c_str (name f)) = ?d2 (c_str (name f))"
    by auto
  have "bundle_stream ?d2 (open_file ?d2 Output_Stream_default path2 out_binary_app) fs False
        = bundle_stream ?d2 (?s1\<lparr>file_name := path2\<rparr>) fs False"
    by (simp only: open_file_renamed [of ?d2 path2 ?d1 path1])
  also have "\<dots> = map_option (\<lambda>(package, s'). (package\<lparr>name := path2\<rparr>, s'\<lparr>file_name := path2\<rparr>))
                      (bundle_stream ?d2 ?s1 fs False)"
    by (rule bundle_stream_renamed_from_disk)
  also have "bundle_stream ?d2 ?s1 fs False = bundle_stream ?d1 ?s1 fs False"
    using a' by (intro bundle_stream_agree) simp
  finally have "bundle_stream ?d2 (open_file ?d2 Output_Stream_default path2 out_binary_app)
                  fs False
                = Some (package\<lparr>name := path2\<rparr>, s\<lparr>file_name := path2\<rparr>)"
    by (simp add: s)
  then show ?thesis
    by (simp add: bundle_disk_to_disk_def Let_def f2 b)
qed

lemma bundle_disk_to_memory_agree:
  assumes "\<forall>n\<in>set names. d1 (c_str n) = d2 (c_str n)"
  shows "bundle_disk_to_memory d1 names = bundle_disk_to_memory d2 names"
proof (cases "files_of_names d1 names")
  case None
  with assms show ?thesis
    by (simp add: bundle_disk_to_memory_def files_of_names_agree [of names d1 d2])
next
  case (Some fs)
  then have "map name fs = names"
    by (rule files_of_names_names)
  with assms have "\<forall>f\<in>set fs. d1 (c_str (name f)) = d2 (c_str (name f))"
    by auto
  then have "\<And>s. bundle_stream d1 s fs False = bundle_stream d2 s fs False"
    by (rule bundle_stream_agree)
  with assms Some show ?thesis
    by (simp add: bundle_disk_to_memory_def files_of_names_agree [of names d1 d2])
qed

text \<open>
  C8, as amended. What two runs of the packer on the same list write and report does
  not depend on the two sinks; for a list of paths it depends on what the listed
  files hold when each run reads them.

  For a list \<open>fs\<close> of in-memory files, whatever the disks hold: a run into the file
  \<open>path2\<close> returns what a run into the file \<open>path1\<close> returns, under the other name; and
  (for a bundle of fewer than \<open>2 ^ 64\<close> bytes, as every bundle held in memory is) a run
  into memory returns the bytes a run into a file writes.

  For a list \<open>names\<close> of paths, on two disks that hold the same at each listed name:
  two runs into memory return the same; and, no listed file being one of the two
  sinks, a run into the file \<open>path2\<close> returns what a run into the file \<open>path1\<close> returns,
  under the other name. And where each listed file exists with the same content of
  at most \<open>INT_MAX\<close> bytes on both disks (the counter of the copy loop is an \<^verbatim>\<open>int\<close>),
  the bundle having fewer than \<open>2 ^ 64\<close> bytes: a run into memory, a run into a file
  and a run on the in-memory files of the same names and contents all produce the
  same bytes.
\<close>

theorem bundle_is_function_of_list:
  "(bundle_memory_to_disk d1 path1 fs = Some (package, [append_file path1 b])
      \<longrightarrow> bundle_memory_to_disk d2 path2 fs
            = Some (package\<lparr>name := path2\<rparr>, [append_file path2 b]))
   \<and> (24 + (\<Sum>f\<leftarrow>fs. length (name f) + 1 + 8 + length (bytes f)) < 2 ^ 64
      \<longrightarrow> (\<exists>b'. bundle_memory_to_memory d1 fs
                  = Some \<lparr>name = [], size_f = of_nat (length b'), bytes = b'\<rparr>
               \<and> bundle_memory_to_memory d2 fs
                  = Some \<lparr>name = [], size_f = of_nat (length b'), bytes = b'\<rparr>
               \<and> bundle_memory_to_disk d2 path2 fs
                  = Some (File_descriptor path2 (of_nat (length b')), [append_file path2 b'])))
   \<and> ((\<forall>n\<in>set names. d1 (c_str n) = d2 (c_str n))
      \<longrightarrow> bundle_disk_to_memory d1 names = bundle_disk_to_memory d2 names)
   \<and> ((\<forall>n\<in>set names. d1 (c_str n) = d2 (c_str n)
                        \<and> c_str n \<noteq> c_str path1 \<and> c_str n \<noteq> c_str path2)
      \<longrightarrow> bundle_disk_to_disk appendable1 d1 path1 names
            = Some (package_of_names, [append_file path1 b_of_names])
      \<longrightarrow> bundle_disk_to_disk appendable2 d2 path2 names
            = Some (package_of_names\<lparr>name := path2\<rparr>, [append_file path2 b_of_names]))
   \<and> ((\<forall>(n, c)\<in>set entries. d1 (c_str n) = Some c \<and> d2 (c_str n) = Some c
                                \<and> length c \<le> INT_MAX)
      \<and> 24 + (\<Sum>(n, c)\<leftarrow>entries. length n + 1 + 8 + length c) < 2 ^ 64
      \<longrightarrow> (\<exists>b'. bundle_disk_to_memory d1 (map fst entries)
                  = Some \<lparr>name = [], size_f = of_nat (length b'), bytes = b'\<rparr>
               \<and> bundle_disk_to_disk appendable2 d2 path2 (map fst entries)
                  = Some (File_descriptor path2 (of_nat (length b')), [append_file path2 b'])
               \<and> bundle_memory_to_memory d1 (in_memory_files entries)
                  = Some \<lparr>name = [], size_f = of_nat (length b'), bytes = b'\<rparr>))"
proof (intro conjI impI)
  assume r: "bundle_memory_to_disk d1 path1 fs = Some (package, [append_file path1 b])"
  let ?s1 = "open_file d1 Output_Stream_default path1 out_binary_app"
  from r obtain s where s: "bundle_stream d1 ?s1 fs True = Some (package, s)"
    and b: "b = put_bytes (file_stream s)"
    by (auto simp: bundle_memory_to_disk_def split: Option.bind_splits)
  have "bundle_stream d2 (open_file d2 Output_Stream_default path2 out_binary_app) fs True
        = bundle_stream d2 (?s1\<lparr>file_name := path2\<rparr>) fs True"
    by (simp only: open_file_renamed [of d2 path2 d1 path1])
  also have "\<dots> = Some (package\<lparr>name := path2\<rparr>, s\<lparr>file_name := path2\<rparr>)"
    by (simp add: bundle_stream_renamed [of d2 _ _ _ d1] s)
  finally show "bundle_memory_to_disk d2 path2 fs
                = Some (package\<lparr>name := path2\<rparr>, [append_file path2 b])"
    by (simp add: bundle_memory_to_disk_def b)
next
  assume "24 + (\<Sum>f\<leftarrow>fs. length (name f) + 1 + 8 + length (bytes f)) < 2 ^ 64"
  then have len: "length (bundle_layout fs) < 2 ^ 64"
    by (simp add: length_bundle_layout)
  show "\<exists>b'. bundle_memory_to_memory d1 fs
               = Some \<lparr>name = [], size_f = of_nat (length b'), bytes = b'\<rparr>
            \<and> bundle_memory_to_memory d2 fs
               = Some \<lparr>name = [], size_f = of_nat (length b'), bytes = b'\<rparr>
            \<and> bundle_memory_to_disk d2 path2 fs
               = Some (File_descriptor path2 (of_nat (length b')), [append_file path2 b'])"
    using bundle_memory_to_memory_layout [OF len, of d1]
      bundle_memory_to_memory_layout [OF len, of d2]
      bundle_memory_to_disk_layout [OF len, of d2 path2]
    by blast
next
  assume "\<forall>n\<in>set names. d1 (c_str n) = d2 (c_str n)"
  then show "bundle_disk_to_memory d1 names = bundle_disk_to_memory d2 names"
    by (rule bundle_disk_to_memory_agree)
next
  assume "\<forall>n\<in>set names. d1 (c_str n) = d2 (c_str n)
            \<and> c_str n \<noteq> c_str path1 \<and> c_str n \<noteq> c_str path2"
    and "bundle_disk_to_disk appendable1 d1 path1 names
         = Some (package_of_names, [append_file path1 b_of_names])"
  then show "bundle_disk_to_disk appendable2 d2 path2 names
             = Some (package_of_names\<lparr>name := path2\<rparr>, [append_file path2 b_of_names])"
    by (rule bundle_disk_to_disk_renamed)
next
  assume h: "(\<forall>(n, c)\<in>set entries. d1 (c_str n) = Some c \<and> d2 (c_str n) = Some c
                                   \<and> length c \<le> INT_MAX)
             \<and> 24 + (\<Sum>(n, c)\<leftarrow>entries. length n + 1 + 8 + length c) < 2 ^ 64"
  then have e1: "\<forall>(n, c)\<in>set entries. d1 (c_str n) = Some c \<and> length c \<le> INT_MAX"
    and e2: "\<forall>(n, c)\<in>set entries. d2 (c_str n) = Some c \<and> length c \<le> INT_MAX"
    by auto
  from h have len: "length (bundle_layout (in_memory_files entries)) < 2 ^ 64"
    by (simp add: length_bundle_layout_in_memory_files)
  show "\<exists>b'. bundle_disk_to_memory d1 (map fst entries)
               = Some \<lparr>name = [], size_f = of_nat (length b'), bytes = b'\<rparr>
            \<and> bundle_disk_to_disk appendable2 d2 path2 (map fst entries)
               = Some (File_descriptor path2 (of_nat (length b')), [append_file path2 b'])
            \<and> bundle_memory_to_memory d1 (in_memory_files entries)
               = Some \<lparr>name = [], size_f = of_nat (length b'), bytes = b'\<rparr>"
    using bundle_disk_to_memory_layout [OF e1 len]
      bundle_disk_to_disk_layout [OF e2 len, of appendable2 path2]
      bundle_memory_to_memory_layout [OF len, of d1]
    by blast
qed

theorem bundle_is_function_of_list_witness:
  "bundle_memory_to_disk ((\<lambda>path. None)(str ''x.txt'' := Some (str ''hi''))) (str ''one.bin'')
     [File_from_vector (str ''x.txt'') (str ''hi'')]
   = Some (File_descriptor (str ''one.bin'') 40,
           [append_file (str ''one.bin'')
              ([6, 0, 0, 0, 0, 0, 0, 0] @ [8, 0, 0, 0, 0, 0, 0, 0] @ [2, 0, 0, 0, 0, 0, 0, 0]
                 @ str ''x.txt'' @ [0] @ [2, 0, 0, 0, 0, 0, 0, 0] @ str ''hi'')])
   \<and> bundle_memory_to_disk
       ((\<lambda>path. None)(str ''x.txt'' := Some (str ''hi''), str ''other'' := Some [1, 2, 3]))
       (str ''two.bin'') [File_from_vector (str ''x.txt'') (str ''hi'')]
     = Some (File_descriptor (str ''two.bin'') 40,
             [append_file (str ''two.bin'')
                ([6, 0, 0, 0, 0, 0, 0, 0] @ [8, 0, 0, 0, 0, 0, 0, 0] @ [2, 0, 0, 0, 0, 0, 0, 0]
                   @ str ''x.txt'' @ [0] @ [2, 0, 0, 0, 0, 0, 0, 0] @ str ''hi'')])
   \<and> 24 + (\<Sum>f\<leftarrow>[File_from_vector (str ''x.txt'') (str ''hi'')].
              length (name f) + 1 + 8 + length (bytes f)) < (2 :: nat) ^ 64
   \<and> (\<exists>b'. bundle_memory_to_memory ((\<lambda>path. None)(str ''x.txt'' := Some (str ''hi'')))
                [File_from_vector (str ''x.txt'') (str ''hi'')]
              = Some \<lparr>name = [], size_f = of_nat (length b'), bytes = b'\<rparr>
           \<and> bundle_memory_to_memory
                ((\<lambda>path. None)(str ''x.txt'' := Some (str ''hi''), str ''other'' := Some [1, 2, 3]))
                [File_from_vector (str ''x.txt'') (str ''hi'')]
              = Some \<lparr>name = [], size_f = of_nat (length b'), bytes = b'\<rparr>
           \<and> bundle_memory_to_disk
                ((\<lambda>path. None)(str ''x.txt'' := Some (str ''hi''), str ''other'' := Some [1, 2, 3]))
                (str ''two.bin'') [File_from_vector (str ''x.txt'') (str ''hi'')]
              = Some (File_descriptor (str ''two.bin'') (of_nat (length b')),
                      [append_file (str ''two.bin'') b']))
   \<and> ((\<lambda>path. None)(str ''x.txt'' := Some (str ''hi''))) (c_str (str ''x.txt''))
       = ((\<lambda>path. None)(str ''x.txt'' := Some (str ''hi''), str ''other'' := Some [1, 2, 3]))
           (c_str (str ''x.txt''))
   \<and> c_str (str ''x.txt'') \<noteq> c_str (str ''one.bin'')
   \<and> c_str (str ''x.txt'') \<noteq> c_str (str ''two.bin'')
   \<and> bundle_disk_to_memory ((\<lambda>path. None)(str ''x.txt'' := Some (str ''hi''))) [str ''x.txt'']
       = bundle_disk_to_memory
           ((\<lambda>path. None)(str ''x.txt'' := Some (str ''hi''), str ''other'' := Some [1, 2, 3]))
           [str ''x.txt'']
   \<and> bundle_disk_to_disk (\<lambda>path. True) ((\<lambda>path. None)(str ''x.txt'' := Some (str ''hi'')))
       (str ''one.bin'') [str ''x.txt'']
     = Some (File_descriptor (str ''one.bin'') 40,
             [append_file (str ''one.bin'')
                ([6, 0, 0, 0, 0, 0, 0, 0] @ [8, 0, 0, 0, 0, 0, 0, 0] @ [2, 0, 0, 0, 0, 0, 0, 0]
                   @ str ''x.txt'' @ [0] @ [2, 0, 0, 0, 0, 0, 0, 0] @ str ''hi'')])
   \<and> bundle_disk_to_disk (\<lambda>path. False)
       ((\<lambda>path. None)(str ''x.txt'' := Some (str ''hi''), str ''other'' := Some [1, 2, 3]))
       (str ''two.bin'') [str ''x.txt'']
     = Some (File_descriptor (str ''two.bin'') 40,
             [append_file (str ''two.bin'')
                ([6, 0, 0, 0, 0, 0, 0, 0] @ [8, 0, 0, 0, 0, 0, 0, 0] @ [2, 0, 0, 0, 0, 0, 0, 0]
                   @ str ''x.txt'' @ [0] @ [2, 0, 0, 0, 0, 0, 0, 0] @ str ''hi'')])
   \<and> (\<exists>b'. bundle_disk_to_memory ((\<lambda>path. None)(str ''x.txt'' := Some (str ''hi'')))
                (map fst [(str ''x.txt'', str ''hi'')])
              = Some \<lparr>name = [], size_f = of_nat (length b'), bytes = b'\<rparr>
           \<and> bundle_disk_to_disk (\<lambda>path. False)
                ((\<lambda>path. None)(str ''x.txt'' := Some (str ''hi''), str ''other'' := Some [1, 2, 3]))
                (str ''two.bin'') (map fst [(str ''x.txt'', str ''hi'')])
              = Some (File_descriptor (str ''two.bin'') (of_nat (length b')),
                      [append_file (str ''two.bin'') b'])
           \<and> bundle_memory_to_memory ((\<lambda>path. None)(str ''x.txt'' := Some (str ''hi'')))
                (in_memory_files [(str ''x.txt'', str ''hi'')])
              = Some \<lparr>name = [], size_f = of_nat (length b'), bytes = b'\<rparr>)"
proof -
  let ?fs = "[File_from_vector (str ''x.txt'') (str ''hi'')]"
  let ?names = "[str ''x.txt'']"
  let ?entries = "[(str ''x.txt'', str ''hi'')]"
  let ?b = "[6, 0, 0, 0, 0, 0, 0, 0] @ [8, 0, 0, 0, 0, 0, 0, 0] @ [2, 0, 0, 0, 0, 0, 0, 0]
              @ str ''x.txt'' @ [0] @ [2, 0, 0, 0, 0, 0, 0, 0] @ str ''hi''"
  let ?d1 = "(\<lambda>path. None)(str ''x.txt'' := Some (str ''hi''))"
  let ?d2 = "(\<lambda>path. None)(str ''x.txt'' := Some (str ''hi''), str ''other'' := Some [1, 2, 3])"
  have one: "bundle_memory_to_disk ?d1 (str ''one.bin'') ?fs
             = Some (File_descriptor (str ''one.bin'') 40, [append_file (str ''one.bin'') ?b])"
    by (simp add: bundle_eval)
  have small: "24 + (\<Sum>f\<leftarrow>?fs. length (name f) + 1 + 8 + length (bytes f)) < (2 :: nat) ^ 64"
    by (simp add: File_from_vector_def str_def)
  have same: "?d1 (c_str (str ''x.txt'')) = ?d2 (c_str (str ''x.txt''))"
    and other1: "c_str (str ''x.txt'') \<noteq> c_str (str ''one.bin'')"
    and other2: "c_str (str ''x.txt'') \<noteq> c_str (str ''two.bin'')"
    by (simp_all add: c_str_def str_def)
  from same have agree: "\<forall>n\<in>set ?names. ?d1 (c_str n) = ?d2 (c_str n)"
    by simp
  from same other1 other2
  have apart: "\<forall>n\<in>set ?names. ?d1 (c_str n) = ?d2 (c_str n)
                 \<and> c_str n \<noteq> c_str (str ''one.bin'') \<and> c_str n \<noteq> c_str (str ''two.bin'')"
    by simp
  have run: "bundle_disk_to_disk (\<lambda>path. True) ?d1 (str ''one.bin'') ?names
             = Some (File_descriptor (str ''one.bin'') 40, [append_file (str ''one.bin'') ?b])"
    by (simp add: bundle_eval bundle_disk_eval)
  have held: "(\<forall>(n, c)\<in>set ?entries. ?d1 (c_str n) = Some c \<and> ?d2 (c_str n) = Some c
                                     \<and> length c \<le> INT_MAX)
              \<and> 24 + (\<Sum>(n, c)\<leftarrow>?entries. length n + 1 + 8 + length c) < 2 ^ 64"
    by (simp add: c_str_def str_def INT_MAX_def)
  note t = bundle_is_function_of_list
    [of ?d1 "str ''one.bin''" ?fs "File_descriptor (str ''one.bin'') 40" ?b
        ?d2 "str ''two.bin''" ?names "\<lambda>path. True"
        "File_descriptor (str ''one.bin'') 40" ?b "\<lambda>path. False" ?entries]
  from t one have two: "bundle_memory_to_disk ?d2 (str ''two.bin'') ?fs
             = Some (File_descriptor (str ''two.bin'') 40, [append_file (str ''two.bin'') ?b])"
    by (simp add: File_descriptor_def)
  from t small have mem: "\<exists>b'. bundle_memory_to_memory ?d1 ?fs
              = Some \<lparr>name = [], size_f = of_nat (length b'), bytes = b'\<rparr>
           \<and> bundle_memory_to_memory ?d2 ?fs
              = Some \<lparr>name = [], size_f = of_nat (length b'), bytes = b'\<rparr>
           \<and> bundle_memory_to_disk ?d2 (str ''two.bin'') ?fs
              = Some (File_descriptor (str ''two.bin'') (of_nat (length b')),
                      [append_file (str ''two.bin'') b'])"
    by blast
  from t agree have to_memory:
    "bundle_disk_to_memory ?d1 ?names = bundle_disk_to_memory ?d2 ?names"
    by blast
  from t apart run have to_disk:
    "bundle_disk_to_disk (\<lambda>path. False) ?d2 (str ''two.bin'') ?names
     = Some (File_descriptor (str ''two.bin'') 40, [append_file (str ''two.bin'') ?b])"
    by (simp add: File_descriptor_def)
  from t held have across: "\<exists>b'. bundle_disk_to_memory ?d1 (map fst ?entries)
              = Some \<lparr>name = [], size_f = of_nat (length b'), bytes = b'\<rparr>
           \<and> bundle_disk_to_disk (\<lambda>path. False) ?d2 (str ''two.bin'') (map fst ?entries)
              = Some (File_descriptor (str ''two.bin'') (of_nat (length b')),
                      [append_file (str ''two.bin'') b'])
           \<and> bundle_memory_to_memory ?d1 (in_memory_files ?entries)
              = Some \<lparr>name = [], size_f = of_nat (length b'), bytes = b'\<rparr>"
    by blast
  from one two small mem same other1 other2 to_memory run to_disk across show ?thesis
    by (intro conjI) assumption+
qed

text \<open>
  The claim as the specification states it fails for lists of paths. The list of the
  one path \<^verbatim>\<open>"f"\<close>, bundled to memory when the file holds the byte 1 and again when it
  holds the byte 2, gives two bundles that differ in their last byte. And with
  nothing but the packer writing: the list of the one path \<^verbatim>\<open>"o1"\<close>, bundled into the
  file \<^verbatim>\<open>"o1"\<close> itself (which the run creates, empty, before it asks for its size) and
  then, \<^verbatim>\<open>"o1"\<close> holding the 35 bytes of the first run, into the file \<^verbatim>\<open>"o2"\<close>: the first
  bundle has 35 bytes, the second 70.
\<close>

theorem bundle_is_function_of_list_counterexample:
  "bundle_disk_to_memory ((\<lambda>path. None)(str ''f'' := Some [1])) [str ''f'']
   = Some \<lparr>name = [], size_f = 35,
           bytes = [2, 0, 0, 0, 0, 0, 0, 0] @ [8, 0, 0, 0, 0, 0, 0, 0] @ [1, 0, 0, 0, 0, 0, 0, 0]
                     @ str ''f'' @ [0] @ [1, 0, 0, 0, 0, 0, 0, 0] @ [1]\<rparr>
   \<and> bundle_disk_to_memory ((\<lambda>path. None)(str ''f'' := Some [2])) [str ''f'']
     = Some \<lparr>name = [], size_f = 35,
             bytes = [2, 0, 0, 0, 0, 0, 0, 0] @ [8, 0, 0, 0, 0, 0, 0, 0] @ [1, 0, 0, 0, 0, 0, 0, 0]
                       @ str ''f'' @ [0] @ [1, 0, 0, 0, 0, 0, 0, 0] @ [2]\<rparr>
   \<and> bundle_disk_to_disk (\<lambda>path. True) (\<lambda>path. None) (str ''o1'') [str ''o1'']
     = Some (File_descriptor (str ''o1'') 35,
             [append_file (str ''o1'')
                ([3, 0, 0, 0, 0, 0, 0, 0] @ [8, 0, 0, 0, 0, 0, 0, 0] @ [0, 0, 0, 0, 0, 0, 0, 0]
                   @ str ''o1'' @ [0] @ [0, 0, 0, 0, 0, 0, 0, 0])])
   \<and> bundle_disk_to_disk (\<lambda>path. True)
       ((\<lambda>path. None)
          (str ''o1'' :=
             Some ([3, 0, 0, 0, 0, 0, 0, 0] @ [8, 0, 0, 0, 0, 0, 0, 0] @ [0, 0, 0, 0, 0, 0, 0, 0]
                     @ str ''o1'' @ [0] @ [0, 0, 0, 0, 0, 0, 0, 0])))
       (str ''o2'') [str ''o1'']
     = Some (File_descriptor (str ''o2'') 70,
             [append_file (str ''o2'')
                ([3, 0, 0, 0, 0, 0, 0, 0] @ [8, 0, 0, 0, 0, 0, 0, 0] @ [35, 0, 0, 0, 0, 0, 0, 0]
                   @ str ''o1'' @ [0] @ [35, 0, 0, 0, 0, 0, 0, 0]
                   @ [3, 0, 0, 0, 0, 0, 0, 0] @ [8, 0, 0, 0, 0, 0, 0, 0] @ [0, 0, 0, 0, 0, 0, 0, 0]
                   @ str ''o1'' @ [0] @ [0, 0, 0, 0, 0, 0, 0, 0])])"
  by (simp add: bundle_eval bundle_disk_eval)

section \<open>The invariant of a File record\<close>

lemma construct_has_declared_size:
  "construct c = Some f \<Longrightarrow> payload_has_declared_size f"
  by (cases c)
     (auto simp: payload_has_declared_size_def File_from_memory_def set_bytes_from_def
        File_from_vector_def File_descriptor_def File_default_def split: if_splits)

lemma operation_keeps_declared_size:
  "payload_has_declared_size f \<Longrightarrow> keeps_size_and_bytes_together operation \<Longrightarrow>
   apply_operation f operation = Some f' \<Longrightarrow> payload_has_declared_size f'"
  by (cases operation)
     (auto simp: payload_has_declared_size_def set_bytes_from_def set_name_def
        split: if_splits)

lemma operations_keep_declared_size:
  "payload_has_declared_size f \<Longrightarrow>
   \<forall>operation\<in>set operations. keeps_size_and_bytes_together operation \<Longrightarrow>
   apply_operations f operations = Some f' \<Longrightarrow> payload_has_declared_size f'"
proof (induction operations arbitrary: f)
  case Nil
  then show ?case by simp
next
  case (Cons operation operations)
  from Cons.prems(3) obtain f1 where 1: "apply_operation f operation = Some f1"
    and 2: "apply_operations f1 operations = Some f'"
    by (auto split: Option.bind_splits)
  from Cons.prems(1,2) 1 have "payload_has_declared_size f1"
    by (auto intro: operation_keeps_declared_size)
  with Cons.IH [of f1] Cons.prems(2) 2 show ?case
    by simp
qed

text \<open>
  C9, as amended. For every File record made by one of the constructors and every
  sequence of the operations \<^verbatim>\<open>set_bytes(address, size)\<close> and \<^verbatim>\<open>set_name\<close> on it,
  whenever the payload buffer is not empty, its length is the declared size.
  (\<^verbatim>\<open>set_size\<close> and \<^verbatim>\<open>set_bytes(vector)\<close> each write one of the two fields and leave
  the other.)
\<close>

theorem declared_size_invariant:
  assumes "run_operations c operations = Some f"
    and "\<forall>operation\<in>set operations. keeps_size_and_bytes_together operation"
  shows "payload_has_declared_size f"
proof -
  from assms(1) obtain f0 where 0: "construct c = Some f0"
    and 1: "apply_operations f0 operations = Some f"
    by (auto simp: run_operations_def split: Option.bind_splits)
  from 0 have "payload_has_declared_size f0"
    by (rule construct_has_declared_size)
  from this assms(2) 1 show ?thesis
    by (rule operations_keep_declared_size)
qed

theorem declared_size_invariant_witness:
  "run_operations (New_from_vector (str ''a'') [1, 2, 3])
     [Set_name (str ''b''), Set_bytes_from [7, 8, 9, 10] 2]
   = Some \<lparr>name = str ''b'', size_f = 2, bytes = [7, 8]\<rparr>
   \<and> payload_has_declared_size \<lparr>name = str ''b'', size_f = 2, bytes = [7, 8]\<rparr>"
proof -
  have r: "run_operations (New_from_vector (str ''a'') [1, 2, 3])
             [Set_name (str ''b''), Set_bytes_from [7, 8, 9, 10] 2]
           = Some \<lparr>name = str ''b'', size_f = 2, bytes = [7, 8]\<rparr>"
    by (simp add: run_operations_def File_from_vector_def set_name_def set_bytes_from_def)
  have k: "\<forall>operation\<in>set [Set_name (str ''b''), Set_bytes_from [7, 8, 9, 10] 2].
             keeps_size_and_bytes_together operation"
    by simp
  from r declared_size_invariant [OF r k] show ?thesis
    by simp
qed

text \<open>
  The invariant fails after \<^verbatim>\<open>set_size\<close> on a record with a payload, and after
  \<^verbatim>\<open>set_bytes(vector)\<close> on a default record.
\<close>

theorem declared_size_invariant_counterexample:
  "run_operations (New_from_vector (str ''a'') [1, 2, 3]) [Set_size 5]
   = Some \<lparr>name = str ''a'', size_f = 5, bytes = [1, 2, 3]\<rparr>
   \<and> \<not> payload_has_declared_size \<lparr>name = str ''a'', size_f = 5, bytes = [1, 2, 3]\<rparr>
   \<and> run_operations New_default [Set_bytes [1, 2, 3]]
     = Some \<lparr>name = [], size_f = 0, bytes = [1, 2, 3]\<rparr>
   \<and> \<not> payload_has_declared_size \<lparr>name = [], size_f = 0, bytes = [1, 2, 3]\<rparr>"
  by (simp add: run_operations_def File_from_vector_def File_default_def set_size_def
        set_bytes_def payload_has_declared_size_def)

end
